theory Spec2Isabelle
  imports Main "HOL-Library.AList"
begin

section \<open>Errors\<close>

text \<open>
  The three \<^verbatim>\<open>tf.assert_equal\<close> operations collected in the list \<^verbatim>\<open>asserts\<close> of
  \<^verbatim>\<open>_add_traj_metadata\<close> (dataloader.py, l.168-174), in the order of the list.
\<close>

datatype assertion = LengthsEqual | KeyModIsIndex | KeyDivIsLength

text \<open>
  What the code raises. \<open>AssertionError\<close> is Python's \<^verbatim>\<open>assert\<close> (l.176-177), with the
  field name it tested. \<open>InvalidArgumentError\<close> is a failed \<^verbatim>\<open>tf.assert_equal\<close>, with
  the assertion that TensorFlow names: of those that fail, the first of the list
  \<^verbatim>\<open>asserts\<close>. \<open>TypeError\<close> is \<^verbatim>\<open>tf.repeat\<close> refusing a repeat count that is
  not an integer, \<open>ValueError\<close> is \<^verbatim>\<open>tf.repeat\<close> along axis 0 of a tensor without axes.
  \<open>OpError\<close> is the InvalidArgumentError of another TensorFlow operation, with its name.
  \<open>IndexError\<close> is an index into an empty Python list, \<open>StopIteration\<close> is \<^verbatim>\<open>next\<close> on an
  iterator that is at its end, \<open>KeyError\<close> a key that a dictionary does not have.
\<close>

datatype error =
    TypeError
  | ValueError
  | AssertionError string
  | InvalidArgumentError assertion
  | KeyError string
  | OpError string
  | IndexError
  | StopIteration

text \<open>The spec's names for the failures of the tagger, read on the errors of the code.\<close>

definition ReservedFieldError :: "error \<Rightarrow> bool" where
  "ReservedFieldError e = (e = AssertionError ''_i'' \<or> e = AssertionError ''_len'')"

definition LengthMismatchError :: "error \<Rightarrow> bool" where
  "LengthMismatchError e = (e = InvalidArgumentError LengthsEqual)"

definition KeyOverflowError :: "error \<Rightarrow> bool" where
  "KeyOverflowError e =
     (e = InvalidArgumentError KeyModIsIndex \<or> e = InvalidArgumentError KeyDivIsLength)"

section \<open>The composite key\<close>

definition TRAJ_IDX_ENCODING_BITS :: nat where
  "TRAJ_IDX_ENCODING_BITS = 51"

text \<open>
  The value of a 64-bit signed integer operation: the mathematical result, wrapped around
  into \<open>-2^63 ..< 2^63\<close>.
\<close>

definition int64 :: "int \<Rightarrow> int" where
  "int64 n = (n + 2 ^ 63) mod 2 ^ 64 - 2 ^ 63"

text \<open>
  l.167: \<^verbatim>\<open>k = tf.cast(traj_len, tf.int64) * (2**_TRAJ_IDX_ENCODING_BITS) + i\<close>.
  The product and the sum are int64 operations. The length is a leading dimension, a
  natural number that \<^verbatim>\<open>tf.shape\<close> holds in an int32, so its cast to int64 is exact;
  the index \<open>i\<close> is the int64 counter of \<^verbatim>\<open>enumerate\<close>.
\<close>

definition traj_key :: "nat \<Rightarrow> int \<Rightarrow> int" where
  "traj_key traj_len i = int64 (int64 (int traj_len * 2 ^ TRAJ_IDX_ENCODING_BITS) + i)"

text \<open>
  l.172-173: the two key assertions. \<^verbatim>\<open>%\<close> and \<^verbatim>\<open>//\<close> on int64 tensors are floor
  modulus and floor division, as \<open>mod\<close> and \<open>div\<close> on \<open>int\<close> are.
\<close>

definition key_mod_ok :: "nat \<Rightarrow> int \<Rightarrow> bool" where
  "key_mod_ok traj_len i = (traj_key traj_len i mod 2 ^ TRAJ_IDX_ENCODING_BITS = i)"

definition key_div_ok :: "nat \<Rightarrow> int \<Rightarrow> bool" where
  "key_div_ok traj_len i =
     (traj_key traj_len i div 2 ^ TRAJ_IDX_ENCODING_BITS = int traj_len)"

section \<open>Tensors and dictionaries\<close>

text \<open>
  An element of a tensor: an int32 (what \<^verbatim>\<open>tf.shape\<close> yields), an int64 (what
  \<^verbatim>\<open>enumerate\<close> yields), or a value of any other dtype.
\<close>

datatype 'a elem = Int32 int | Int64 int | Elem 'a

text \<open>
  A tensor is a scalar (no axes) or the list of its slices along axis 0. A
  \<^verbatim>\<open>Dict[str, tf.Tensor]\<close> is an association list in insertion order, as a Python
  dictionary is; its keys are distinct.
\<close>

datatype 'a tensor = Scalar 'a | Tensor "'a tensor list"

type_synonym 'v dict = "(string \<times> 'v) list"

type_synonym 'a traj = "'a elem tensor dict"

text \<open>l.151: \<^verbatim>\<open>tf.shape(v)[0] if len(v.shape) > 0 else None\<close>.\<close>

fun leading_dim :: "'a tensor \<Rightarrow> nat option" where
  "leading_dim (Scalar a) = None"
| "leading_dim (Tensor ts) = Some (length ts)"

fun flatten :: "'a tensor \<Rightarrow> 'a list" where
  "flatten (Scalar a) = [a]"
| "flatten (Tensor ts) = concat (map flatten ts)"

text \<open>
  \<^verbatim>\<open>tf.repeat(input, repeats)\<close> without an axis flattens the input and repeats each
  element; with \<^verbatim>\<open>axis=0\<close> it repeats each slice along the first axis, which a scalar
  does not have.
\<close>

definition tf_repeat :: "'a tensor \<Rightarrow> nat \<Rightarrow> 'a tensor" where
  "tf_repeat input repeats =
     Tensor (concat (map (\<lambda>a. replicate repeats (Scalar a)) (flatten input)))"

definition tf_repeat_axis0 :: "'a tensor \<Rightarrow> nat \<Rightarrow> error + 'a tensor" where
  "tf_repeat_axis0 input repeats =
     (case input of
        Scalar a \<Rightarrow> Inl ValueError
      | Tensor ts \<Rightarrow> Inr (Tensor (concat (map (replicate repeats) ts))))"

text \<open>
  The shape of a tensor, read along its first slices, and the tensors all of whose slices
  agree on their shape. Every \<^verbatim>\<open>tf.Tensor\<close> is regular; the datatype also has ragged
  nestings, which no tensor is.
\<close>

fun shape :: "'a tensor \<Rightarrow> nat list" where
  "shape (Scalar a) = []"
| "shape (Tensor []) = [0]"
| "shape (Tensor (t # ts)) = Suc (length ts) # shape t"

fun regular :: "'a tensor \<Rightarrow> bool" where
  "regular (Scalar a) = True"
| "regular (Tensor ts) = (\<forall>t \<in> set ts. regular t \<and> shape t = shape (hd ts))"

section \<open>The tagger: \<^verbatim>\<open>_add_traj_metadata\<close>\<close>

text \<open>l.154: the list comprehension \<^verbatim>\<open>[l for l in traj_lens.values() if l is not None]\<close>.\<close>

fun not_none :: "'a option list \<Rightarrow> 'a list" where
  "not_none [] = []"
| "not_none (None # ls) = not_none ls"
| "not_none (Some l # ls) = l # not_none ls"

text \<open>
  \<^verbatim>\<open>tf.reduce_max\<close> of a list of lengths. Of the empty list it is the float32 value
  \<open>-inf\<close>, here \<open>None\<close>: not a length.
\<close>

fun reduce_max :: "nat list \<Rightarrow> nat option" where
  "reduce_max [] = None"
| "reduce_max (l # ls) = Some (fold max ls l)"

text \<open>l.151, the dictionary \<^verbatim>\<open>traj_lens\<close>, and l.154, the canonical length \<^verbatim>\<open>traj_len\<close>.\<close>

definition traj_lens_of :: "'a tensor dict \<Rightarrow> nat option dict" where
  "traj_lens_of x = map (\<lambda>(k, v). (k, leading_dim v)) x"

definition canonical_length :: "'a tensor dict \<Rightarrow> nat option" where
  "canonical_length x = reduce_max (not_none (map snd (traj_lens_of x)))"

text \<open>
  l.157-165, the body of the loop on one key: the pair is \<^verbatim>\<open>(x[k], traj_lens[k])\<close>
  before and after. The two \<^verbatim>\<open>if\<close> run one after the other, the second on the length
  the first may have set.
\<close>

definition broadcast ::
  "nat \<Rightarrow> 'a tensor \<times> nat option \<Rightarrow> error + 'a tensor \<times> nat option" where
  "broadcast traj_len vl =
     (let (v, l) = vl;
          (v, l) = (if l = None then (tf_repeat v traj_len, Some traj_len) else (v, l))
      in if l = Some 1
         then (case tf_repeat_axis0 v traj_len of
                 Inl e \<Rightarrow> Inl e
               | Inr v' \<Rightarrow> Inr (v', Some traj_len))
         else Inr (v, l))"

text \<open>l.156: \<^verbatim>\<open>for k in x\<close>, on the state \<^verbatim>\<open>(x, traj_lens)\<close>.\<close>

fun broadcast_loop ::
  "nat \<Rightarrow> string list \<Rightarrow> 'a tensor dict \<times> nat option dict
     \<Rightarrow> error + 'a tensor dict \<times> nat option dict" where
  "broadcast_loop traj_len [] (x, traj_lens) = Inr (x, traj_lens)"
| "broadcast_loop traj_len (k # ks) (x, traj_lens) =
     (case (map_of x k, map_of traj_lens k) of
        (Some v, Some l) \<Rightarrow>
          (case broadcast traj_len (v, l) of
             Inl e \<Rightarrow> Inl e
           | Inr (v', l') \<Rightarrow>
               broadcast_loop traj_len ks (AList.update k v' x, AList.update k l' traj_lens))
      | _ \<Rightarrow> Inl (KeyError k))"

text \<open>
  l.181: \<^verbatim>\<open>with tf.control_dependencies(asserts): return x\<close>. The value is returned when
  every assertion holds; otherwise the error raised is that of the first assertion of the
  list that does not.
\<close>

definition control_dependencies :: "(assertion \<times> bool) list \<Rightarrow> 'b \<Rightarrow> error + 'b" where
  "control_dependencies asserts x =
     (case filter (\<lambda>a. \<not> snd a) asserts of
        [] \<Rightarrow> Inr x
      | a # _ \<Rightarrow> Inl (InvalidArgumentError (fst a)))"

text \<open>
  \<^verbatim>\<open>_add_traj_metadata(i, x)\<close>, l.149-182. The function is traced once and then run on
  every trajectory, so what Python raises comes before what the graph raises:
  \<^item> with no field that has a leading dimension, \<^verbatim>\<open>traj_len\<close> is the float \<open>-inf\<close>
    and the first \<^verbatim>\<open>tf.repeat\<close> (l.159, or l.178 for the empty dictionary) refuses it;
  \<^item> the two Python \<^verbatim>\<open>assert\<close> of l.176-177 test the keys of \<^verbatim>\<open>x\<close>;
  \<^item> the three \<^verbatim>\<open>tf.assert_equal\<close> of l.168-174 guard the returned dictionary.
  The first assertion counts the distinct values of \<^verbatim>\<open>traj_lens\<close> after the loop.
\<close>

definition add_traj_metadata :: "int \<Rightarrow> 'a traj \<Rightarrow> error + 'a traj" where
  "add_traj_metadata i x =
     (case canonical_length x of
        None \<Rightarrow> Inl TypeError
      | Some traj_len \<Rightarrow>
          (case broadcast_loop traj_len (map fst x) (x, traj_lens_of x) of
             Inl e \<Rightarrow> Inl e
           | Inr (x, traj_lens) \<Rightarrow>
               let asserts =
                     [(LengthsEqual, length (remdups (map snd traj_lens)) = 1),
                      (KeyModIsIndex, key_mod_ok traj_len i),
                      (KeyDivIsLength, key_div_ok traj_len i)]
               in if ''_i'' \<in> set (map fst x) then Inl (AssertionError ''_i'')
                  else if ''_len'' \<in> set (map fst x) then Inl (AssertionError ''_len'')
                  else control_dependencies asserts
                         (AList.update ''_len''
                            (tf_repeat (Scalar (Int32 (int traj_len))) traj_len)
                            (AList.update ''_i'' (tf_repeat (Scalar (Int64 i)) traj_len) x))))"

section \<open>Flattening and regrouping\<close>

text \<open>
  \<^verbatim>\<open>Dataset.unbatch()\<close> (l.77, l.94) splits an element along the leading dimension of
  its components. Every component must have one, and all must agree on it.
\<close>

fun slice :: "nat \<Rightarrow> 'a tensor \<Rightarrow> 'a tensor" where
  "slice j (Scalar a) = Scalar a"
| "slice j (Tensor ts) = ts ! j"

definition unbatch_element :: "'a tensor dict \<Rightarrow> error + 'a tensor dict list" where
  "unbatch_element x =
     (case map (leading_dim \<circ> snd) x of
        [] \<Rightarrow> Inl (OpError ''unbatch'')
      | None # ls \<Rightarrow> Inl (OpError ''unbatch'')
      | Some n # ls \<Rightarrow>
          if \<forall>l \<in> set ls. l = Some n
          then Inr (map (\<lambda>j. map (\<lambda>(k, v). (k, slice j v)) x) [0..<n])
          else Inl (OpError ''unbatch''))"

fun unbatch :: "'a tensor dict list \<Rightarrow> error + 'a tensor dict list" where
  "unbatch [] = Inr []"
| "unbatch (x # xs) =
     (case unbatch_element x of
        Inl e \<Rightarrow> Inl e
      | Inr steps \<Rightarrow>
          (case unbatch xs of Inl e \<Rightarrow> Inl e | Inr rest \<Rightarrow> Inr (steps @ rest)))"

text \<open>
  \<^verbatim>\<open>Dataset.batch(n)\<close> (l.86) stacks each run of \<open>n\<close> consecutive elements, and the
  shorter run that may remain at the end, into one element. The elements of a run must
  agree on their keys and on the shape of each component; the size must be positive.
\<close>

definition element_spec :: "'a tensor dict \<Rightarrow> nat list dict" where
  "element_spec x = map (\<lambda>(k, v). (k, shape v)) x"

definition stack :: "'a tensor dict list \<Rightarrow> error + 'a tensor dict" where
  "stack steps =
     (case steps of
        [] \<Rightarrow> Inl (OpError ''batch'')
      | s # ss \<Rightarrow>
          if \<forall>s' \<in> set ss. element_spec s' = element_spec s
          then Inr (map (\<lambda>j. (fst (s ! j), Tensor (map (\<lambda>s'. snd (s' ! j)) steps)))
                      [0..<length s])
          else Inl (OpError ''batch''))"

function batch :: "int \<Rightarrow> 'a tensor dict list \<Rightarrow> error + 'a tensor dict list" where
  "batch batch_size ds =
     (if batch_size \<le> 0 then Inl (OpError ''batch'')
      else if ds = [] then Inr []
      else (case stack (take (nat batch_size) ds) of
              Inl e \<Rightarrow> Inl e
            | Inr b \<Rightarrow>
                (case batch batch_size (drop (nat batch_size) ds) of
                   Inl e \<Rightarrow> Inl e
                 | Inr bs \<Rightarrow> Inr (b # bs))))"
  by pat_completeness auto
termination
  by (relation "measure (\<lambda>(n, ds). length ds)") auto

text \<open>
  \<^verbatim>\<open>Dataset.group_by_window(key_func, reduce_func, window_size_func)\<close> (l.84-88), as
  TensorFlow runs it: each element joins the open group of its key; a group that reaches
  the window size of its key is reduced, its result emitted, and the group closed; a
  window size must be positive. At the end of the input the groups still open are
  reduced as they are, in the order of their keys.
\<close>

fun flush_groups ::
  "(int \<Rightarrow> 'e list \<Rightarrow> error + 'r list) \<Rightarrow> (int \<times> 'e list) list \<Rightarrow> error + 'r list" where
  "flush_groups reduce_func [] = Inr []"
| "flush_groups reduce_func ((k, g) # groups) =
     (case reduce_func k g of
        Inl e \<Rightarrow> Inl e
      | Inr out \<Rightarrow>
          (case flush_groups reduce_func groups of
             Inl e \<Rightarrow> Inl e
           | Inr rest \<Rightarrow> Inr (out @ rest)))"

fun group_by_window_loop ::
  "('e \<Rightarrow> error + int) \<Rightarrow> (int \<Rightarrow> 'e list \<Rightarrow> error + 'r list) \<Rightarrow> (int \<Rightarrow> int)
     \<Rightarrow> (int \<times> 'e list) list \<Rightarrow> 'e list \<Rightarrow> error + 'r list" where
  "group_by_window_loop key_func reduce_func window_size_func groups [] =
     flush_groups reduce_func (sort_key fst groups)"
| "group_by_window_loop key_func reduce_func window_size_func groups (e # es) =
     (case key_func e of
        Inl err \<Rightarrow> Inl err
      | Inr k \<Rightarrow>
          if window_size_func k \<le> 0 then Inl (OpError ''group_by_window'')
          else
            let group = (case map_of groups k of None \<Rightarrow> [] | Some g \<Rightarrow> g) @ [e]
            in if int (length group) = window_size_func k
               then (case reduce_func k group of
                       Inl err \<Rightarrow> Inl err
                     | Inr out \<Rightarrow>
                         (case group_by_window_loop key_func reduce_func window_size_func
                                 (AList.delete k groups) es of
                            Inl err \<Rightarrow> Inl err
                          | Inr rest \<Rightarrow> Inr (out @ rest)))
               else group_by_window_loop key_func reduce_func window_size_func
                      (AList.update k group groups) es)"

definition group_by_window ::
  "('e \<Rightarrow> error + int) \<Rightarrow> (int \<Rightarrow> 'e list \<Rightarrow> error + 'r list) \<Rightarrow> (int \<Rightarrow> int)
     \<Rightarrow> 'e list \<Rightarrow> error + 'r list" where
  "group_by_window key_func reduce_func window_size_func ds =
     group_by_window_loop key_func reduce_func window_size_func [] ds"

text \<open>
  The three functions given to \<^verbatim>\<open>group_by_window\<close> at l.85-87. The key is an int64
  scalar: \<^verbatim>\<open>tf.cast(x["_len"], tf.int64) * (2**51) + x["_i"]\<close>, on the int32 scalar
  \<^verbatim>\<open>_len\<close> and the int64 scalar \<^verbatim>\<open>_i\<close> that the tagger writes. The cast of an element
  of another dtype is not modelled: on \<open>Elem\<close> the function returns \<open>TypeError\<close>, which is
  what \<^verbatim>\<open>tf.cast\<close> does on a string and not on a float.
\<close>

fun cast_int64 :: "'a elem tensor \<Rightarrow> int option" where
  "cast_int64 (Scalar (Int32 n)) = Some n"
| "cast_int64 (Scalar (Int64 n)) = Some n"
| "cast_int64 v = None"

definition key_func :: "'a traj \<Rightarrow> error + int" where
  "key_func x =
     (case map_of x ''_len'' of
        None \<Rightarrow> Inl (KeyError ''_len'')
      | Some len \<Rightarrow>
          (case map_of x ''_i'' of
             None \<Rightarrow> Inl (KeyError ''_i'')
           | Some i \<Rightarrow>
               (case (cast_int64 len, i) of
                  (Some l, Scalar (Int64 i')) \<Rightarrow>
                    Inr (int64 (int64 (l * 2 ^ TRAJ_IDX_ENCODING_BITS) + i'))
                | _ \<Rightarrow> Inl TypeError)))"

definition reduce_func :: "int \<Rightarrow> 'a traj list \<Rightarrow> error + 'a traj list" where
  "reduce_func k d = batch (k div 2 ^ TRAJ_IDX_ENCODING_BITS) d"

definition window_size_func :: "int \<Rightarrow> int" where
  "window_size_func k = k div 2 ^ TRAJ_IDX_ENCODING_BITS"

definition regroup :: "'a traj list \<Rightarrow> error + 'a traj list" where
  "regroup ds = group_by_window key_func reduce_func window_size_func ds"

section \<open>The pipeline: \<^verbatim>\<open>make_dataset\<close>\<close>

text \<open>
  \<^verbatim>\<open>make_dataset\<close> builds a dataset: it calls the operations of \<^verbatim>\<open>tf.data\<close> one after
  the other, each on the dataset that the call before returned, and returns the last
  dataset. No element is read while it runs, except the first record of one shard
  (l.131). A call either returns a dataset or raises, and then \<^verbatim>\<open>make_dataset\<close> raises:
  \<^verbatim>\<open>Dataset.map\<close> and \<^verbatim>\<open>Dataset.group_by_window\<close> trace the functions they are given
  when they are called, so that what \<^verbatim>\<open>_add_traj_metadata\<close> or a transform raises at trace
  time is raised by that call.
\<close>

definition and_then :: "error + 'a \<Rightarrow> ('a \<Rightarrow> error + 'b) \<Rightarrow> error + 'b" where
  "and_then m f = (case m of Inl e \<Rightarrow> Inl e | Inr v \<Rightarrow> f v)"

text \<open>A Python loop over a list that stops at the first element on which \<open>f\<close> raises.\<close>

fun map_or_raise :: "('a \<Rightarrow> error + 'b) \<Rightarrow> 'a list \<Rightarrow> error + 'b list" where
  "map_or_raise f [] = Inr []"
| "map_or_raise f (x # xs) =
     (case f x of
        Inl e \<Rightarrow> Inl e
      | Inr y \<Rightarrow> (case map_or_raise f xs of Inl e \<Rightarrow> Inl e | Inr ys \<Rightarrow> Inr (y # ys)))"

text \<open>
  A transform (l.17-22): a function on a dictionary of tensors, or the string
  \<^verbatim>\<open>"cache"\<close>.
\<close>

datatype 'a transform = Apply "'a traj \<Rightarrow> error + 'a traj" | Cache

text \<open>
  A type spec (l.122-146): for each feature the shape, with \<open>None\<close> for a dimension
  that is not fixed, and the dtype.
\<close>

type_synonym 'dt type_spec = "(nat option list \<times> 'dt) dict"

text \<open>
  What \<^verbatim>\<open>make_dataset\<close> calls in TensorFlow, as parameters of the model. \<open>'ds\<close> is the
  type of the datasets, \<open>'raw\<close> that of the serialized records, \<open>'dt\<close> that of the dtypes.

  \<^item> \<open>glob\<close>: \<^verbatim>\<open>tf.io.gfile.glob(tf.io.gfile.join(path, "*.tfrecord"))\<close> (l.45), of the
    directory;
  \<^item> \<open>random_shuffle\<close>: what \<^verbatim>\<open>tf.random.shuffle(paths, seed=seed)\<close> (l.48) returns, of the
    seed and the list; \<^verbatim>\<open>make_dataset\<close> calls it once at most;
  \<^item> \<open>TFRecordDataset\<close>: \<^verbatim>\<open>tf.data.TFRecordDataset\<close> (l.54, l.131), of the list of files;
  \<^item> \<open>next_iter\<close>: \<^verbatim>\<open>next(iter(dataset)).numpy()\<close> (l.131), the first record;
  \<^item> \<open>parse_example\<close>: the features of a record with the dtype and the dimensions that
    their tensor protos store (l.132-141);
  \<^item> \<open>parse_tensor\<close>: \<^verbatim>\<open>tf.io.parse_tensor\<close> on the feature of a record under a key, with
    a dtype (l.112-114): the dimensions of the tensor and the tensor;
  \<^item> \<open>with_options\<close>: \<^verbatim>\<open>Dataset.with_options\<close> with the options of l.56-60;
  \<^item> \<open>map_records\<close>: \<^verbatim>\<open>Dataset.map\<close> on the dataset of the records (l.63-67);
  \<^item> \<open>enumerate_op\<close>, \<open>map_indexed\<close>: \<^verbatim>\<open>Dataset.enumerate\<close> and \<^verbatim>\<open>Dataset.map\<close> with a
    function of the counter and the element (l.70);
  \<^item> \<open>map_dicts\<close>, \<open>cache_op\<close>: \<^verbatim>\<open>Dataset.map\<close> with a function on dictionaries and its
    flag \<^verbatim>\<open>deterministic\<close>, and \<^verbatim>\<open>Dataset.cache\<close>;
  \<^item> \<open>unbatch_op\<close>: \<^verbatim>\<open>Dataset.unbatch\<close> (l.77, l.94);
  \<^item> \<open>group_by_window_op\<close>: \<^verbatim>\<open>Dataset.group_by_window\<close> with its three functions (l.84);
  \<^item> \<open>batch_op\<close>: \<^verbatim>\<open>Dataset.batch\<close> with the batch size (l.86, l.103);
  \<^item> \<open>shuffle_op\<close>: \<^verbatim>\<open>Dataset.shuffle\<close> with the buffer size and the seed (l.98);
  \<^item> \<open>repeat_op\<close>, \<open>prefetch_op\<close>: \<^verbatim>\<open>Dataset.repeat\<close> (l.100), \<^verbatim>\<open>Dataset.prefetch\<close>
    (l.106).
\<close>

record ('raw, 'dt, 'a, 'ds) tensorflow =
  glob :: "string \<Rightarrow> error + string list"
  random_shuffle :: "int \<Rightarrow> string list \<Rightarrow> string list"
  TFRecordDataset :: "string list \<Rightarrow> error + 'ds"
  next_iter :: "'ds \<Rightarrow> error + 'raw"
  parse_example :: "'raw \<Rightarrow> error + ('dt \<times> nat list) dict"
  parse_tensor :: "'raw \<Rightarrow> string \<Rightarrow> 'dt \<Rightarrow> error + nat list \<times> 'a elem tensor"
  with_options :: "'ds \<Rightarrow> error + 'ds"
  map_records :: "('raw \<Rightarrow> error + 'a traj) \<Rightarrow> 'ds \<Rightarrow> error + 'ds"
  enumerate_op :: "'ds \<Rightarrow> error + 'ds"
  map_indexed :: "(int \<Rightarrow> 'a traj \<Rightarrow> error + 'a traj) \<Rightarrow> 'ds \<Rightarrow> error + 'ds"
  map_dicts :: "('a traj \<Rightarrow> error + 'a traj) \<Rightarrow> bool \<Rightarrow> 'ds \<Rightarrow> error + 'ds"
  cache_op :: "'ds \<Rightarrow> error + 'ds"
  unbatch_op :: "'ds \<Rightarrow> error + 'ds"
  group_by_window_op ::
    "('a traj \<Rightarrow> error + int) \<Rightarrow> (int \<Rightarrow> 'ds \<Rightarrow> error + 'ds) \<Rightarrow> (int \<Rightarrow> int)
       \<Rightarrow> 'ds \<Rightarrow> error + 'ds"
  batch_op :: "int \<Rightarrow> 'ds \<Rightarrow> error + 'ds"
  shuffle_op :: "int \<Rightarrow> int \<Rightarrow> 'ds \<Rightarrow> error + 'ds"
  repeat_op :: "'ds \<Rightarrow> error + 'ds"
  prefetch_op :: "'ds \<Rightarrow> error + 'ds"

text \<open>The arguments of \<^verbatim>\<open>make_dataset\<close> (l.11-24).\<close>

record 'a config =
  path :: string
  seed :: int
  batch_size :: int
  shuffle_buffer_size :: int
  frame_transforms :: "'a transform list"
  traj_transforms :: "'a transform list"
  traj_transforms_first :: bool

text \<open>
  Modelled from the spec: \<^verbatim>\<open>dl.transforms.apply_transforms\<close> is not among the source
  files. Section 4.4 of the spec: the steps are applied to the stream in order, a
  function as a map over the stream, under the determinism flag of the caller, the
  materialize directive as a cache of the stream; the error of a step is propagated and
  the applier adds none.
\<close>

fun apply_transforms ::
  "('raw, 'dt, 'a, 'ds) tensorflow \<Rightarrow> 'a transform list \<Rightarrow> bool \<Rightarrow> 'ds \<Rightarrow> error + 'ds" where
  "apply_transforms tf [] deterministic dataset = Inr dataset"
| "apply_transforms tf (Apply f # transforms) deterministic dataset =
     and_then (map_dicts tf f deterministic dataset)
       (apply_transforms tf transforms deterministic)"
| "apply_transforms tf (Cache # transforms) deterministic dataset =
     and_then (cache_op tf dataset) (apply_transforms tf transforms deterministic)"

text \<open>
  The value of \<^verbatim>\<open>paths\<close>: the Python list that \<^verbatim>\<open>glob\<close> returns (l.45), or the tensor
  that \<^verbatim>\<open>tf.random.shuffle\<close> returns (l.48). \<^verbatim>\<open>paths[0]\<close> (l.51) on an empty list raises
  IndexError; on an empty tensor it is the InvalidArgumentError of the strided slice.
\<close>

datatype paths = PyList "string list" | PathTensor "string list"

fun path_list :: "paths \<Rightarrow> string list" where
  "path_list (PyList ps) = ps"
| "path_list (PathTensor ps) = ps"

fun getitem0 :: "paths \<Rightarrow> error + string" where
  "getitem0 (PyList []) = Inl IndexError"
| "getitem0 (PathTensor []) = Inl (OpError ''strided_slice'')"
| "getitem0 (PyList (p # ps)) = Inr p"
| "getitem0 (PathTensor (p # ps)) = Inr p"

text \<open>
  \<^verbatim>\<open>_get_type_spec(path)\<close>, l.122-146: the first record of the file; of each feature
  the dtype and the shape, the first dimension of a shape that has one replaced by
  \<open>None\<close>. A file without a record ends the iterator at once: \<open>next_iter\<close> raises.
\<close>

definition get_type_spec ::
  "('raw, 'dt, 'a, 'ds) tensorflow \<Rightarrow> string \<Rightarrow> error + 'dt type_spec" where
  "get_type_spec tf p =
     and_then (TFRecordDataset tf [p]) (\<lambda>dataset.
     and_then (next_iter tf dataset) (\<lambda>data.
     and_then (parse_example tf data) (\<lambda>features.
       Inr (map (\<lambda>(key, dtype, shape).
                   (key, (case shape of [] \<Rightarrow> [] | d # ds \<Rightarrow> None # map Some ds), dtype))
                features))))"

text \<open>
  \<^verbatim>\<open>tf.ensure_shape\<close> (l.117): the tensor has as many dimensions as the shape of the
  spec, and each agrees with the dimension of the spec that is fixed.
\<close>

definition compatible :: "nat list \<Rightarrow> nat option list \<Rightarrow> bool" where
  "compatible shp spec = list_all2 (\<lambda>d s. s = None \<or> s = Some d) shp spec"

text \<open>
  \<^verbatim>\<open>_decode_example\<close>, l.111-119: every key of the type spec is parsed with its dtype
  (l.114); then the shape of every parsed tensor is compared with that of the spec
  (l.116-117).
\<close>

definition decode_example ::
  "('raw, 'dt, 'a, 'ds) tensorflow \<Rightarrow> 'dt type_spec \<Rightarrow> 'raw \<Rightarrow> error + 'a traj" where
  "decode_example tf type_spec example_proto =
     and_then
       (map_or_raise
          (\<lambda>(key, spec_shape, dtype).
             and_then (parse_tensor tf example_proto key dtype) (\<lambda>t.
               Inr (key, spec_shape, t)))
          type_spec)
       (map_or_raise
          (\<lambda>(key, spec_shape, shp, v).
             if compatible shp spec_shape then Inr (key, v)
             else Inl (OpError ''ensure_shape'')))"

text \<open>
  l.54-70: the dataset of the records of the shards, with the options, decoded, and every
  trajectory tagged with its position in the stream.
\<close>

definition tagged_dataset ::
  "('raw, 'dt, 'a, 'ds) tensorflow \<Rightarrow> paths \<Rightarrow> 'dt type_spec \<Rightarrow> error + 'ds" where
  "tagged_dataset tf paths type_spec =
     and_then (TFRecordDataset tf (path_list paths)) (\<lambda>dataset.
     and_then (with_options tf dataset) (\<lambda>dataset.
     and_then (map_records tf (decode_example tf type_spec) dataset) (\<lambda>dataset.
     and_then (enumerate_op tf dataset) (\<lambda>dataset.
       map_indexed tf add_traj_metadata dataset))))"

text \<open>
  l.86: \<^verbatim>\<open>reduce_func=lambda k, d: d.batch(k // (2**_TRAJ_IDX_ENCODING_BITS))\<close>, on the
  dataset of a window.
\<close>

definition reduce_func_op ::
  "('raw, 'dt, 'a, 'ds) tensorflow \<Rightarrow> int \<Rightarrow> 'ds \<Rightarrow> error + 'ds" where
  "reduce_func_op tf k d = batch_op tf (k div 2 ^ TRAJ_IDX_ENCODING_BITS) d"

text \<open>l.72-94: from the tagged trajectories to the frames that enter the output stage.\<close>

definition frames ::
  "('raw, 'dt, 'a, 'ds) tensorflow \<Rightarrow> 'a config \<Rightarrow> 'ds \<Rightarrow> error + 'ds" where
  "frames tf cfg dataset =
     and_then (if traj_transforms_first cfg
               then apply_transforms tf (traj_transforms cfg) False dataset
               else Inr dataset) (\<lambda>dataset.
     and_then (unbatch_op tf dataset) (\<lambda>dataset.
     and_then (apply_transforms tf (frame_transforms cfg) (\<not> traj_transforms_first cfg) dataset)
       (\<lambda>dataset.
         if \<not> traj_transforms_first cfg
         then and_then (group_by_window_op tf key_func (reduce_func_op tf) window_size_func
                          dataset) (\<lambda>dataset.
              and_then (apply_transforms tf (traj_transforms cfg) False dataset)
                (unbatch_op tf))
         else Inr dataset)))"

text \<open>l.96-106: the output stage.\<close>

definition output_stage ::
  "('raw, 'dt, 'a, 'ds) tensorflow \<Rightarrow> 'a config \<Rightarrow> 'ds \<Rightarrow> error + 'ds" where
  "output_stage tf cfg dataset =
     and_then (if shuffle_buffer_size cfg > 1
               then shuffle_op tf (shuffle_buffer_size cfg) (seed cfg) dataset
               else Inr dataset) (\<lambda>dataset.
     and_then (repeat_op tf dataset) (\<lambda>dataset.
     and_then (batch_op tf (batch_size cfg) dataset) (prefetch_op tf)))"

text \<open>\<^verbatim>\<open>make_dataset\<close>, l.45-108.\<close>

definition make_dataset ::
  "('raw, 'dt, 'a, 'ds) tensorflow \<Rightarrow> 'a config \<Rightarrow> error + 'ds" where
  "make_dataset tf cfg =
     and_then (glob tf (path cfg)) (\<lambda>paths.
       let paths = (if shuffle_buffer_size cfg > 1
                    then PathTensor (random_shuffle tf (seed cfg) paths)
                    else PyList paths)
       in and_then (getitem0 paths) (\<lambda>p.
          and_then (get_type_spec tf p) (\<lambda>type_spec.
          and_then (tagged_dataset tf paths type_spec) (\<lambda>dataset.
          and_then (frames tf cfg dataset) (output_stage tf cfg)))))"

text \<open>
  Concrete inputs on which the theorems on \<^verbatim>\<open>make_dataset\<close> are run. In \<open>call_log\<close> a
  dataset is the list of the calls that built it, the file names after the first; the
  directory has two shards, the path shuffle reverses the list under an odd seed, the
  first record of a shard is the name of the shard, and the dtype of its only feature
  is that name again, so that a type spec tells the shard it was read from.
\<close>

definition call_log :: "(string, string, nat, string list) tensorflow" where
  "call_log =
     \<lparr>glob = (\<lambda>p. Inr [p @ ''/a.tfrecord'', p @ ''/b.tfrecord'']),
      random_shuffle = (\<lambda>s ps. if even s then ps else rev ps),
      TFRecordDataset = (\<lambda>ps. Inr (''TFRecordDataset'' # ps)),
      next_iter = (\<lambda>ds. case ds of [c, p] \<Rightarrow> Inr p | _ \<Rightarrow> Inl StopIteration),
      parse_example = (\<lambda>data. Inr [(''obs'', data, [3, 2])]),
      parse_tensor = (\<lambda>data key dtype. Inr ([1], Tensor [Scalar (Elem 0)])),
      with_options = (\<lambda>ds. Inr (ds @ [''with_options''])),
      map_records = (\<lambda>f ds. Inr (ds @ [''map _decode_example''])),
      enumerate_op = (\<lambda>ds. Inr (ds @ [''enumerate''])),
      map_indexed = (\<lambda>f ds. Inr (ds @ [''map _add_traj_metadata''])),
      map_dicts = (\<lambda>f d ds. Inr (ds @ [''map transform''])),
      cache_op = (\<lambda>ds. Inr (ds @ [''cache''])),
      unbatch_op = (\<lambda>ds. Inr (ds @ [''unbatch''])),
      group_by_window_op = (\<lambda>k r w ds. Inr (ds @ [''group_by_window''])),
      batch_op = (\<lambda>n ds. Inr (ds @ [''batch''])),
      shuffle_op = (\<lambda>b s ds. Inr (ds @ [''shuffle''])),
      repeat_op = (\<lambda>ds. Inr (ds @ [''repeat''])),
      prefetch_op = (\<lambda>ds. Inr (ds @ [''prefetch'']))\<rparr>"

definition cache_then_map :: "nat config" where
  "cache_then_map =
     \<lparr>path = ''d'', seed = 1, batch_size = 2, shuffle_buffer_size = 1,
      frame_transforms = [Apply Inr], traj_transforms = [Cache],
      traj_transforms_first = True\<rparr>"

section \<open>Closed forms used in the proofs\<close>

text \<open>
  What the loop of l.156-165 leaves in one field, the first assertion on the lengths it
  leaves, the dictionary that l.178-179 complete, and the set of the leading dimensions
  of a dictionary. The lemmas below prove that the code computes them.
\<close>

definition bcast :: "nat \<Rightarrow> 'a tensor \<Rightarrow> 'a tensor" where
  "bcast n v =
     (case v of
        Scalar a \<Rightarrow> Tensor (replicate n (Scalar a))
      | Tensor ts \<Rightarrow> if length ts = 1 then Tensor (replicate n (hd ts)) else Tensor ts)"

definition lengths_equal :: "nat \<Rightarrow> 'a tensor dict \<Rightarrow> bool" where
  "lengths_equal n x =
     (length (remdups (map snd (traj_lens_of (map (\<lambda>(k, v). (k, bcast n v)) x)))) = 1)"

definition tagged :: "int \<Rightarrow> nat \<Rightarrow> 'a traj \<Rightarrow> 'a traj" where
  "tagged i n x =
     map (\<lambda>(k, v). (k, bcast n v)) x
       @ [(''_i'', Tensor (replicate n (Scalar (Int64 i)))),
          (''_len'', Tensor (replicate n (Scalar (Int32 (int n)))))]"

definition dims :: "'a tensor dict \<Rightarrow> nat set" where
  "dims x = {length ts | k ts. (k, Tensor ts) \<in> set x}"

section \<open>Properties of the key\<close>

lemma int64_id: "- (2 ^ 63) \<le> n \<Longrightarrow> n < 2 ^ 63 \<Longrightarrow> int64 n = n"
  by (simp add: int64_def)

lemma int64_range: "- (2 ^ 63) \<le> int64 n \<and> int64 n < 2 ^ 63"
  by (simp add: int64_def)

lemma traj_key_exact:
  assumes "0 \<le> i" "i < 2 ^ 51" "n < 2 ^ 12"
  shows "traj_key n i = int n * 2 ^ 51 + i"
proof -
  have n: "int n \<le> 4095" using assms(3) by simp
  have p: "int n * 2 ^ 51 \<le> 9221120237041090560"
    using n by simp
  have b: "int64 (int n * 2 ^ 51) = int n * 2 ^ 51"
    using p by (intro int64_id) simp_all
  have c: "int64 (int n * 2 ^ 51 + i) = int n * 2 ^ 51 + i"
    using p assms(1,2) by (intro int64_id) simp_all
  show ?thesis
    by (simp only: traj_key_def TRAJ_IDX_ENCODING_BITS_def b c)
qed

lemma key_mod_ok_range: "key_mod_ok n i \<Longrightarrow> 0 \<le> i \<and> i < 2 ^ 51"
proof -
  assume "key_mod_ok n i"
  then have "i = traj_key n i mod 2 ^ 51"
    by (simp add: key_mod_ok_def TRAJ_IDX_ENCODING_BITS_def)
  moreover have "0 \<le> traj_key n i mod 2 ^ 51 \<and> traj_key n i mod 2 ^ 51 < 2 ^ 51"
    by simp
  ultimately show ?thesis by metis
qed

lemma int64_div_range: "int64 m div 2 ^ 51 < 2 ^ 12"
proof -
  have "int64 m < 2 ^ 63" using int64_range by blast
  then have "int64 m < 2 ^ 12 * 2 ^ 51" by simp
  then show ?thesis
    by (simp add: div_less_iff_less_mult del: power_inject_exp)
qed

lemma key_div_ok_range: "key_div_ok n i \<Longrightarrow> n < 2 ^ 12"
proof -
  assume "key_div_ok n i"
  then have "int n = traj_key n i div 2 ^ 51"
    by (simp add: key_div_ok_def TRAJ_IDX_ENCODING_BITS_def)
  also have "\<dots> < 2 ^ 12"
    unfolding traj_key_def by (rule int64_div_range)
  finally show ?thesis by simp
qed

lemma key_ok_in_budget:
  assumes "0 \<le> i" "i < 2 ^ 51" "n < 2 ^ 12"
  shows "key_mod_ok n i \<and> key_div_ok n i"
proof -
  have k: "traj_key n i = int n * 2 ^ 51 + i"
    using assms by (rule traj_key_exact)
  have m: "(int n * 2 ^ 51 + i) mod 2 ^ 51 = i"
    using assms(1,2) by simp
  have d: "(int n * 2 ^ 51 + i) div 2 ^ 51 = int n"
    using assms(1,2) by simp
  show ?thesis
    by (simp only: k m d key_mod_ok_def key_div_ok_def TRAJ_IDX_ENCODING_BITS_def)
qed

lemma key_asserts_iff:
  "key_mod_ok n i \<and> key_div_ok n i \<longleftrightarrow> 0 \<le> i \<and> i < 2 ^ 51 \<and> n < 2 ^ 12"
  using key_mod_ok_range key_div_ok_range key_ok_in_budget by blast

text \<open>
  C1. Composite-key round-trip: for every length below \<open>2^12\<close> and every index \<open>i\<close> with
  \<open>0 \<le> i < 2^51\<close>, the key of l.167 is \<open>len * 2^51 + i\<close> without wrap-around, its
  remainder modulo \<open>2^51\<close> is the index and its quotient by \<open>2^51\<close> is the length, so both
  key assertions of the tagger hold.
\<close>

theorem key_round_trip:
  assumes "0 \<le> i" "i < 2 ^ 51" "n < 2 ^ 12"
  shows "traj_key n i = int n * 2 ^ 51 + i
       \<and> traj_key n i mod 2 ^ 51 = i
       \<and> traj_key n i div 2 ^ 51 = int n
       \<and> key_mod_ok n i \<and> key_div_ok n i"
proof -
  have k: "traj_key n i = int n * 2 ^ 51 + i"
    using assms by (rule traj_key_exact)
  have m: "(int n * 2 ^ 51 + i) mod 2 ^ 51 = i"
    using assms(1,2) by simp
  have d: "(int n * 2 ^ 51 + i) div 2 ^ 51 = int n"
    using assms(1,2) by simp
  show ?thesis
    by (simp only: k m d key_mod_ok_def key_div_ok_def TRAJ_IDX_ENCODING_BITS_def)
qed

theorem key_round_trip_witness:
  "traj_key 4095 (2 ^ 51 - 1) = 4095 * 2 ^ 51 + (2 ^ 51 - 1)
   \<and> traj_key 4095 (2 ^ 51 - 1) mod 2 ^ 51 = 2 ^ 51 - 1
   \<and> traj_key 4095 (2 ^ 51 - 1) div 2 ^ 51 = 4095"
  using key_round_trip [of "2 ^ 51 - 1" 4095] by simp

section \<open>Properties of the tagger\<close>

lemma tf_repeat_Scalar: "tf_repeat (Scalar a) n = Tensor (replicate n (Scalar a))"
  by (simp add: tf_repeat_def)

lemma broadcast_closed:
  "broadcast n (v, leading_dim v) = Inr (bcast n v, leading_dim (bcast n v))"
proof (cases v)
  case (Scalar a)
  then show ?thesis
    by (simp add: broadcast_def bcast_def tf_repeat_def tf_repeat_axis0_def)
next
  case (Tensor ts)
  show ?thesis
  proof (cases "length ts = 1")
    case True
    then obtain t where "ts = [t]"
      by (cases ts) auto
    with Tensor show ?thesis
      by (simp add: broadcast_def bcast_def tf_repeat_axis0_def)
  next
    case False
    with Tensor show ?thesis
      by (simp add: broadcast_def bcast_def)
  qed
qed

lemma leading_dim_bcast:
  "leading_dim (bcast n v) =
     (case leading_dim v of None \<Rightarrow> Some n | Some m \<Rightarrow> if m = 1 then Some n else Some m)"
  by (cases v) (simp_all add: bcast_def)

lemma broadcast_loop_frame:
  "k \<notin> set ks \<Longrightarrow>
   broadcast_loop n ks ((k, v) # x, (k, l) # tls) =
     (case broadcast_loop n ks (x, tls) of
        Inl e \<Rightarrow> Inl e
      | Inr (x', tls') \<Rightarrow> Inr ((k, v) # x', (k, l) # tls'))"
proof (induction ks arbitrary: x tls)
  case Nil
  then show ?case by simp
next
  case (Cons k' ks)
  then have ne: "k' \<noteq> k" and notin: "k \<notin> set ks" by auto
  show ?case
    using ne Cons.IH [OF notin]
    by (auto split: option.splits sum.splits prod.splits)
qed

lemma broadcast_loop_closed:
  "distinct (map fst x) \<Longrightarrow>
   broadcast_loop n (map fst x) (x, traj_lens_of x) =
     Inr (map (\<lambda>(k, v). (k, bcast n v)) x,
          traj_lens_of (map (\<lambda>(k, v). (k, bcast n v)) x))"
proof (induction x)
  case Nil
  then show ?case by (simp add: traj_lens_of_def)
next
  case (Cons p x)
  obtain k v where p: "p = (k, v)" by (cases p)
  from Cons.prems p have notin: "k \<notin> set (map fst x)" and d: "distinct (map fst x)"
    by auto
  have tl: "traj_lens_of ((k, v) # x) = (k, leading_dim v) # traj_lens_of x"
    by (simp add: traj_lens_of_def)
  show ?case
    unfolding p
    by (simp add: tl broadcast_closed broadcast_loop_frame [OF notin] Cons.IH [OF d])
       (simp add: traj_lens_of_def)
qed

lemma update_append: "k \<notin> set (map fst x) \<Longrightarrow> AList.update k v x = x @ [(k, v)]"
  by (induction x) auto

lemma add_traj_metadata_closed:
  assumes "distinct (map fst x)" "canonical_length x = Some n"
  shows "add_traj_metadata i x =
     (if ''_i'' \<in> set (map fst x) then Inl (AssertionError ''_i'')
      else if ''_len'' \<in> set (map fst x) then Inl (AssertionError ''_len'')
      else control_dependencies
             [(LengthsEqual, lengths_equal n x),
              (KeyModIsIndex, key_mod_ok n i),
              (KeyDivIsLength, key_div_ok n i)]
             (tagged i n x))"
proof -
  let ?x' = "map (\<lambda>(k, v). (k, bcast n v)) x"
  have keys: "map fst ?x' = map fst x"
    by (induction x) auto
  have upd: "AList.update ''_len'' b (AList.update ''_i'' a ?x')
               = ?x' @ [(''_i'', a), (''_len'', b)]"
    if "''_i'' \<notin> set (map fst x)" "''_len'' \<notin> set (map fst x)" for a b
  proof -
    have "AList.update ''_i'' a ?x' = ?x' @ [(''_i'', a)]"
      using that(1) keys by (intro update_append) simp
    moreover have "AList.update ''_len'' b (?x' @ [(''_i'', a)])
                     = (?x' @ [(''_i'', a)]) @ [(''_len'', b)]"
      using that(2) keys by (intro update_append) simp
    ultimately show ?thesis by simp
  qed
  have e: "add_traj_metadata i x =
     (if ''_i'' \<in> set (map fst x) then Inl (AssertionError ''_i'')
      else if ''_len'' \<in> set (map fst x) then Inl (AssertionError ''_len'')
      else control_dependencies
             [(LengthsEqual, lengths_equal n x),
              (KeyModIsIndex, key_mod_ok n i),
              (KeyDivIsLength, key_div_ok n i)]
             (AList.update ''_len'' (Tensor (replicate n (Scalar (Int32 (int n)))))
                (AList.update ''_i'' (Tensor (replicate n (Scalar (Int64 i)))) ?x')))"
    by (simp only: add_traj_metadata_def assms(2) broadcast_loop_closed [OF assms(1)]
        option.case sum.case prod.case Let_def keys lengths_equal_def tf_repeat_Scalar)
  show ?thesis
  proof (cases "''_i'' \<in> set (map fst x) \<or> ''_len'' \<in> set (map fst x)")
    case True
    then show ?thesis
      unfolding e by auto
  next
    case False
    then have a: "''_i'' \<notin> set (map fst x)" and b: "''_len'' \<notin> set (map fst x)"
      by auto
    show ?thesis
      unfolding e by (simp only: upd [OF a b] tagged_def)
  qed
qed

lemma set_not_none: "set (not_none ls) = {l. Some l \<in> set ls}"
  by (induction ls rule: not_none.induct) auto

lemma reduce_max_eq: "reduce_max ls = (if ls = [] then None else Some (Max (set ls)))"
proof (cases ls)
  case Nil
  then show ?thesis by simp
next
  case (Cons a list)
  show ?thesis
    unfolding Cons
    by (simp only: reduce_max.simps Max.set_eq_fold list.distinct if_False)
qed

lemma set_lens: "set (not_none (map snd (traj_lens_of x))) = dims x"
proof -
  have "Some l \<in> set (map snd (traj_lens_of x)) \<longleftrightarrow> (\<exists>k ts. (k, Tensor ts) \<in> set x \<and> length ts = l)" for l
  proof
    assume "Some l \<in> set (map snd (traj_lens_of x))"
    then obtain k v where kv: "(k, v) \<in> set x" "leading_dim v = Some l"
      by (auto simp: traj_lens_of_def)
    then show "\<exists>k ts. (k, Tensor ts) \<in> set x \<and> length ts = l"
      by (cases v) auto
  next
    assume "\<exists>k ts. (k, Tensor ts) \<in> set x \<and> length ts = l"
    then show "Some l \<in> set (map snd (traj_lens_of x))"
      by (force simp: traj_lens_of_def)
  qed
  then show ?thesis
    by (auto simp: set_not_none dims_def)
qed

lemma canonical_length_eq:
  "canonical_length x = (if dims x = {} then None else Some (Max (dims x)))"
proof -
  have "not_none (map snd (traj_lens_of x)) = []
          \<longleftrightarrow> set (not_none (map snd (traj_lens_of x))) = {}"
    by simp
  then have "not_none (map snd (traj_lens_of x)) = [] \<longleftrightarrow> dims x = {}"
    by (simp only: set_lens)
  then show ?thesis
    by (simp add: canonical_length_def reduce_max_eq set_lens)
qed

lemma finite_dims: "finite (dims x)"
proof -
  have "dims x = set (not_none (map snd (traj_lens_of x)))" by (simp add: set_lens)
  then show ?thesis by (metis List.finite_set)
qed

lemma canonical_length_attained:
  assumes "canonical_length x = Some n"
  shows "\<exists>k ts. (k, Tensor ts) \<in> set x \<and> length ts = n"
proof -
  from assms have ne: "dims x \<noteq> {}" and n: "n = Max (dims x)"
    by (auto simp: canonical_length_eq split: if_splits)
  have "Max (dims x) \<in> dims x"
    using finite_dims ne by (rule Max_in)
  then obtain k ts where "(k, Tensor ts) \<in> set x" "length ts = Max (dims x)"
    by (auto simp: dims_def)
  then show ?thesis
    using n by blast
qed

lemma canonical_length_defined:
  assumes "(k, Tensor ts) \<in> set x"
  shows "\<exists>n. canonical_length x = Some n"
proof -
  have "length ts \<in> dims x"
    using assms by (auto simp: dims_def)
  then have "dims x \<noteq> {}" by blast
  then show ?thesis by (simp add: canonical_length_eq)
qed

lemma length_remdups_1: "length (remdups ls) = 1 \<longleftrightarrow> (\<exists>a. set ls = {a})"
  by (simp add: length_remdups_card_conv card_1_singleton_iff)

lemma bcast_lens:
  "set (map snd (traj_lens_of (map (\<lambda>(k, v). (k, bcast n v)) x)))
     = (\<lambda>(k, v). leading_dim (bcast n v)) ` set x"
proof -
  have "map snd (traj_lens_of (map (\<lambda>(k, v). (k, bcast n v)) x))
          = map (\<lambda>(k, v). leading_dim (bcast n v)) x"
    by (simp add: traj_lens_of_def case_prod_beta comp_def)
  then show ?thesis
    by (simp only: set_map)
qed

lemma singleton_iff_all: "a \<in> S \<Longrightarrow> (\<exists>b. S = {b}) \<longleftrightarrow> (\<forall>l \<in> S. l = a)"
  by blast

lemma lengths_equal_iff:
  assumes "canonical_length x = Some n"
  shows "lengths_equal n x \<longleftrightarrow> (\<forall>(k, v) \<in> set x. leading_dim (bcast n v) = Some n)"
proof -
  obtain k0 ts0 where k0: "(k0, Tensor ts0) \<in> set x" "length ts0 = n"
    using canonical_length_attained [OF assms] by blast
  have n_in: "Some n \<in> (\<lambda>(k, v). leading_dim (bcast n v)) ` set x"
  proof -
    have "leading_dim (bcast n (Tensor ts0)) = Some n"
      using k0(2) by (auto simp: leading_dim_bcast)
    then show ?thesis using k0(1) by force
  qed
  have "(\<exists>a. (\<lambda>(k, v). leading_dim (bcast n v)) ` set x = {a})
          \<longleftrightarrow> (\<forall>l \<in> (\<lambda>(k, v). leading_dim (bcast n v)) ` set x. l = Some n)"
    using n_in by (rule singleton_iff_all)
  also have "\<dots> \<longleftrightarrow> (\<forall>(k, v) \<in> set x. leading_dim (bcast n v) = Some n)"
    by auto
  finally show ?thesis
    unfolding lengths_equal_def length_remdups_1 bcast_lens .
qed

lemma lengths_equal_iff':
  assumes "canonical_length x = Some n"
  shows "lengths_equal n x \<longleftrightarrow>
         (\<forall>(k, v) \<in> set x. leading_dim v = None \<or> leading_dim v = Some 1 \<or> leading_dim v = Some n)"
  unfolding lengths_equal_iff [OF assms] leading_dim_bcast
  by (auto split: option.splits if_splits; force)

lemma lengths_mismatch:
  assumes "(k1, Tensor a) \<in> set x" "(k2, Tensor b) \<in> set x"
    "length a \<noteq> length b" "length a \<noteq> 1" "length b \<noteq> 1"
  shows "\<not> lengths_equal n x"
proof
  assume "lengths_equal n x"
  then obtain l where l: "(\<lambda>(k, v). leading_dim (bcast n v)) ` set x = {l}"
    unfolding lengths_equal_def length_remdups_1 bcast_lens by blast
  have "leading_dim (bcast n (Tensor a)) \<in> {l}"
    using assms(1) l by force
  moreover have "leading_dim (bcast n (Tensor b)) \<in> {l}"
    using assms(2) l by force
  ultimately show False
    using assms(3-5) by (auto simp add: leading_dim_bcast)
qed

lemma control_dependencies_three:
  "control_dependencies [(a1, b1), (a2, b2), (a3, b3)] y =
     (if \<not> b1 then Inl (InvalidArgumentError a1)
      else if \<not> b2 then Inl (InvalidArgumentError a2)
      else if \<not> b3 then Inl (InvalidArgumentError a3)
      else Inr y)"
  by (simp add: control_dependencies_def)

lemma add_traj_metadata_no_length:
  "canonical_length x = None \<Longrightarrow> add_traj_metadata i x = Inl TypeError"
  by (simp add: add_traj_metadata_def)

lemma add_traj_metadata_reserved:
  assumes "distinct (map fst x)" "canonical_length x = Some n"
    "''_i'' \<in> set (map fst x) \<or> ''_len'' \<in> set (map fst x)"
  shows "add_traj_metadata i x =
           Inl (AssertionError (if ''_i'' \<in> set (map fst x) then ''_i'' else ''_len''))"
  using assms(3) by (auto simp add: add_traj_metadata_closed [OF assms(1,2)])

lemma add_traj_metadata_checked:
  assumes "distinct (map fst x)" "canonical_length x = Some n"
    "''_i'' \<notin> set (map fst x)" "''_len'' \<notin> set (map fst x)"
  shows "add_traj_metadata i x =
     (if \<not> lengths_equal n x then Inl (InvalidArgumentError LengthsEqual)
      else if \<not> key_mod_ok n i then Inl (InvalidArgumentError KeyModIsIndex)
      else if \<not> key_div_ok n i then Inl (InvalidArgumentError KeyDivIsLength)
      else Inr (tagged i n x))"
  using assms(3,4)
  by (simp add: add_traj_metadata_closed [OF assms(1,2)] control_dependencies_three)

lemmas tagger_defs = add_traj_metadata_def canonical_length_def traj_lens_of_def
  broadcast_def tf_repeat_def tf_repeat_axis0_def control_dependencies_def
  key_mod_ok_def key_div_ok_def traj_key_def int64_def TRAJ_IDX_ENCODING_BITS_def

lemma dims_filter:
  "dims (filter (\<lambda>(k, v). leading_dim v \<noteq> None \<and> leading_dim v \<noteq> Some 1) x) = dims x - {1}"
proof -
  have "l \<in> dims (filter (\<lambda>(k, v). leading_dim v \<noteq> None \<and> leading_dim v \<noteq> Some 1) x)
          \<longleftrightarrow> l \<in> dims x - {1}" for l
    by (auto simp add: dims_def)
  then show ?thesis by blast
qed

lemma Max_without_1:
  assumes "finite S" "m \<in> S" "1 < (m::nat)"
  shows "Max (S - {1}) = Max S"
proof -
  have ne: "S \<noteq> {}" using assms(2) by blast
  have "1 < Max S"
    using assms by (meson Max_ge less_le_trans)
  then have in': "Max S \<in> S - {1}"
    using Max_in [OF assms(1) ne] by auto
  have "\<And>y. y \<in> S - {1} \<Longrightarrow> y \<le> Max S"
    using assms(1) by auto
  then show ?thesis
    using in' assms(1) by (intro Max_eqI) auto
qed

section \<open>The claims on the tagger\<close>

text \<open>
  C3. Overflow rejection: a trajectory whose index is \<open>2^51\<close>, or whose canonical length
  is \<open>2^12\<close>, is never tagged: \<^verbatim>\<open>_add_traj_metadata\<close> fails. When nothing else is wrong
  with the dictionary (it has a canonical length, no reserved key, and every field has
  no leading dimension, the leading dimension 1 or the canonical length), the error
  raised is that of a key assertion of l.172-173 (the spec's KeyOverflowError): for the
  index the remainder is not the index, for the length the wrapped key is negative.
\<close>

theorem overflow_rejected:
  assumes "distinct (map fst x)"
    and "i = 2 ^ 51 \<or> canonical_length x = Some (2 ^ 12)"
  shows "\<exists>e. add_traj_metadata i x = Inl e
           \<and> ((\<exists>n. canonical_length x = Some n
                    \<and> (\<forall>(k, v) \<in> set x. leading_dim v = None \<or> leading_dim v = Some 1
                                            \<or> leading_dim v = Some n))
                \<and> ''_i'' \<notin> set (map fst x) \<and> ''_len'' \<notin> set (map fst x)
              \<longrightarrow> KeyOverflowError e)"
proof (cases "canonical_length x")
  case None
  then show ?thesis
    by (simp add: add_traj_metadata_no_length)
next
  case (Some n)
  show ?thesis
  proof (cases "''_i'' \<in> set (map fst x) \<or> ''_len'' \<in> set (map fst x)")
    case True
    then show ?thesis
      using add_traj_metadata_reserved [OF assms(1) Some True] by auto
  next
    case False
    then have r: "''_i'' \<notin> set (map fst x)" "''_len'' \<notin> set (map fst x)"
      by auto
    have bad: "\<not> key_mod_ok n i \<or> \<not> key_div_ok n i"
    proof -
      from assms(2) consider "i = 2 ^ 51" | "n = 2 ^ 12"
        using Some by auto
      then show ?thesis
      proof cases
        case 1
        then show ?thesis using key_mod_ok_range [of n i] by auto
      next
        case 2
        then show ?thesis using key_div_ok_range [of n i] by auto
      qed
    qed
    have le: "lengths_equal n x"
      if "\<forall>(k, v) \<in> set x. leading_dim v = None \<or> leading_dim v = Some 1
                              \<or> leading_dim v = Some n"
      using that by (simp only: lengths_equal_iff' [OF Some])
    show ?thesis
      using bad le
      by (auto simp add: add_traj_metadata_checked [OF assms(1) Some r] Some
          KeyOverflowError_def)
  qed
qed

theorem overflow_rejected_witness:
  "distinct (map fst [(''obs'', Tensor [Scalar (Elem (1::nat)), Scalar (Elem 2)])])
   \<and> add_traj_metadata (2 ^ 51) [(''obs'', Tensor [Scalar (Elem (1::nat)), Scalar (Elem 2)])]
       = Inl (InvalidArgumentError KeyModIsIndex)
   \<and> KeyOverflowError (InvalidArgumentError KeyModIsIndex)
   \<and> canonical_length [(''obs'', Tensor (replicate 4096 (Scalar (Elem (1::nat)))))] = Some (2 ^ 12)
   \<and> add_traj_metadata 0 [(''obs'', Tensor (replicate 4096 (Scalar (Elem (1::nat)))))]
       = Inl (InvalidArgumentError KeyDivIsLength)
   \<and> KeyOverflowError (InvalidArgumentError KeyDivIsLength)"
  using
    overflow_rejected [of "[(''obs'', Tensor [Scalar (Elem (1::nat)), Scalar (Elem 2)])]" "2 ^ 51"]
    overflow_rejected [of "[(''obs'', Tensor (replicate 4096 (Scalar (Elem (1::nat)))))]" 0]
  by (simp add: tagger_defs KeyOverflowError_def)

text \<open>
  C4, as stated, fails. The key is a signed 64-bit integer, so above the 51 bits of the
  index 12 bits are left for the length, not \<open>64 - 51 = 13\<close>: the index 0 and the length
  4096 are within the budgets \<open>2^51\<close> and \<open>2^13\<close>, and the trajectory is refused by the
  assertion of l.173.
\<close>

theorem key_budget_counterexample:
  "(0::int) \<le> 0 \<and> (0::int) < 2 ^ 51 \<and> (4096::nat) < 2 ^ (64 - 51)
   \<and> add_traj_metadata 0 [(''obs'', Tensor (replicate 4096 (Scalar (Elem ()))))]
       = Inl (InvalidArgumentError KeyDivIsLength)"
  by (simp add: tagger_defs)

text \<open>
  C4, amended: for a dictionary with distinct keys, no reserved key and fields whose
  leading dimension is absent, 1 or the canonical length \<open>n\<close>, the tagger accepts the
  trajectory exactly when \<open>0 \<le> i < 2^51\<close> and \<open>n < 2^12\<close>, and then the key decodes to
  \<open>i\<close> and \<open>n\<close>; every index or length beyond these budgets is rejected.
\<close>

theorem key_budget:
  assumes "distinct (map fst x)" "canonical_length x = Some n"
    and "''_i'' \<notin> set (map fst x)" "''_len'' \<notin> set (map fst x)"
    and "\<forall>(k, v) \<in> set x.
           leading_dim v = None \<or> leading_dim v = Some 1 \<or> leading_dim v = Some n"
  shows "((\<exists>y. add_traj_metadata i x = Inr y) \<longleftrightarrow> 0 \<le> i \<and> i < 2 ^ 51 \<and> n < 2 ^ 12)
       \<and> (0 \<le> i \<and> i < 2 ^ 51 \<and> n < 2 ^ 12
            \<longrightarrow> traj_key n i mod 2 ^ 51 = i \<and> traj_key n i div 2 ^ 51 = int n)"
proof -
  have le: "lengths_equal n x"
    using assms(5) by (simp only: lengths_equal_iff' [OF assms(2)])
  have "(\<exists>y. add_traj_metadata i x = Inr y) \<longleftrightarrow> key_mod_ok n i \<and> key_div_ok n i"
    using le by (auto simp add: add_traj_metadata_checked [OF assms(1-4)])
  then have a: "(\<exists>y. add_traj_metadata i x = Inr y) \<longleftrightarrow> 0 \<le> i \<and> i < 2 ^ 51 \<and> n < 2 ^ 12"
    by (simp only: key_asserts_iff)
  have b: "traj_key n i mod 2 ^ 51 = i \<and> traj_key n i div 2 ^ 51 = int n"
    if "0 \<le> i \<and> i < 2 ^ 51 \<and> n < 2 ^ 12"
    using key_ok_in_budget [of i n] that
    by (simp add: key_mod_ok_def key_div_ok_def TRAJ_IDX_ENCODING_BITS_def)
  show ?thesis
    using a b by blast
qed

theorem key_budget_witness:
  "distinct (map fst [(''obs'', Tensor [Scalar (Elem ()), Scalar (Elem ())]), (''lang'', Scalar (Elem ()))])
   \<and> canonical_length [(''obs'', Tensor [Scalar (Elem ()), Scalar (Elem ())]), (''lang'', Scalar (Elem ()))] = Some 2
   \<and> (\<exists>y. add_traj_metadata 5 [(''obs'', Tensor [Scalar (Elem ()), Scalar (Elem ())]), (''lang'', Scalar (Elem ()))] = Inr y)
   \<and> traj_key 2 5 mod 2 ^ 51 = 5 \<and> traj_key 2 5 div 2 ^ 51 = 2"
  using key_budget [of "[(''obs'', Tensor [Scalar (Elem ()), Scalar (Elem ())]), (''lang'', Scalar (Elem ()))]" 2 5]
  by (simp add: canonical_length_def traj_lens_of_def)

text \<open>
  C5. Length-consistency check: a dictionary with two non-scalar fields whose leading
  dimensions differ, neither of them 1, is never tagged. The loop leaves both fields as
  they are, so when no reserved key stops the function before, the first assertion of
  l.170 is among those that fail (the spec's LengthMismatchError).
\<close>

theorem length_mismatch_rejected:
  assumes "distinct (map fst x)"
    and "(k1, Tensor a) \<in> set x" "(k2, Tensor b) \<in> set x"
    and "length a \<noteq> length b" "length a \<noteq> 1" "length b \<noteq> 1"
  shows "\<exists>e. add_traj_metadata i x = Inl e
           \<and> (''_i'' \<notin> set (map fst x) \<and> ''_len'' \<notin> set (map fst x)
              \<longrightarrow> LengthMismatchError e)"
proof -
  obtain n where n: "canonical_length x = Some n"
    using canonical_length_defined [OF assms(2)] by blast
  have bad: "\<not> lengths_equal n x"
    using assms(2-6) by (rule lengths_mismatch)
  show ?thesis
  proof (cases "''_i'' \<in> set (map fst x) \<or> ''_len'' \<in> set (map fst x)")
    case True
    then show ?thesis
      using add_traj_metadata_reserved [OF assms(1) n True] by auto
  next
    case False
    then have r: "''_i'' \<notin> set (map fst x)" "''_len'' \<notin> set (map fst x)"
      by auto
    show ?thesis
      using bad
      by (auto simp add: add_traj_metadata_checked [OF assms(1) n r] LengthMismatchError_def)
  qed
qed

theorem length_mismatch_rejected_witness:
  "distinct (map fst [(''obs'', Tensor (replicate 5 (Scalar (Elem (1::nat))))),
                      (''act'', Tensor (replicate 7 (Scalar (Elem 2))))])
   \<and> length (replicate 5 (Scalar (Elem (1::nat)))) \<noteq> length (replicate 7 (Scalar (Elem (2::nat))))
   \<and> (\<exists>e. add_traj_metadata 0 [(''obs'', Tensor (replicate 5 (Scalar (Elem (1::nat))))),
                      (''act'', Tensor (replicate 7 (Scalar (Elem 2))))] = Inl e
          \<and> LengthMismatchError e)"
  using length_mismatch_rejected [of "[(''obs'', Tensor (replicate 5 (Scalar (Elem (1::nat))))),
                      (''act'', Tensor (replicate 7 (Scalar (Elem 2))))]"
       "''obs''" "replicate 5 (Scalar (Elem 1))" "''act''" "replicate 7 (Scalar (Elem 2))" 0]
  by simp

text \<open>
  C6, as stated, fails in its second half: a field of leading dimension 1 is not only a
  broadcast candidate. l.154 leaves out the scalars alone, so a field of length 1 enters
  the maximum: next to a scalar it gives the canonical length 1, where the scalar alone
  has none; next to a field of length 0 it gives 1, where the other field alone gives 0,
  and the trajectory is then refused by the assertion of l.170.
\<close>

theorem canonical_length_counterexample:
  "canonical_length [(''obs'', Tensor [Scalar (Elem (9::nat))]), (''lang'', Scalar (Elem 7))] = Some 1
   \<and> canonical_length [(''lang'', Scalar (Elem (7::nat)))] = None
   \<and> canonical_length [(''act'', Tensor []), (''obs'', Tensor [Scalar (Elem (9::nat))])] = Some 1
   \<and> canonical_length [(''act'', Tensor ([] :: nat elem tensor list))] = Some 0
   \<and> add_traj_metadata 0 [(''act'', Tensor []), (''obs'', Tensor [Scalar (Elem (9::nat))])]
       = Inl (InvalidArgumentError LengthsEqual)"
  by (simp add: tagger_defs)

text \<open>
  C6, amended. Canonical length: \<^verbatim>\<open>traj_len\<close> of l.154 is the maximum of the leading
  dimensions of all the non-scalar fields, those of leading dimension 1 included, and
  has no value when every field is a scalar. Scalars never enter the maximum. A field
  of leading dimension 1 is without effect as soon as some field is longer: removing
  the scalars and the fields of length 1 then leaves the canonical length unchanged.
  When there is a field of length 1 and none is longer, the canonical length is 1.
\<close>

theorem canonical_length_is_max:
  "canonical_length x =
     (if \<exists>k ts. (k, Tensor ts) \<in> set x
      then Some (Max {length ts | k ts. (k, Tensor ts) \<in> set x})
      else None)
   \<and> ((\<exists>k ts. (k, Tensor ts) \<in> set x \<and> 1 < length ts) \<longrightarrow>
        canonical_length (filter (\<lambda>(k, v). leading_dim v \<noteq> None \<and> leading_dim v \<noteq> Some 1) x)
          = canonical_length x)
   \<and> ((\<exists>k t. (k, Tensor [t]) \<in> set x) \<and> (\<forall>k ts. (k, Tensor ts) \<in> set x \<longrightarrow> length ts \<le> 1)
        \<longrightarrow> canonical_length x = Some 1)"
proof -
  have e: "dims x = {} \<longleftrightarrow> \<not> (\<exists>k ts. (k, Tensor ts) \<in> set x)"
    by (auto simp add: dims_def)
  have a: "canonical_length x =
     (if \<exists>k ts. (k, Tensor ts) \<in> set x
      then Some (Max {length ts | k ts. (k, Tensor ts) \<in> set x})
      else None)"
    using e by (simp add: canonical_length_eq) (simp add: dims_def)
  have b: "canonical_length (filter (\<lambda>(k, v). leading_dim v \<noteq> None \<and> leading_dim v \<noteq> Some 1) x)
          = canonical_length x"
    if "\<exists>k ts. (k, Tensor ts) \<in> set x \<and> 1 < length ts"
  proof -
    from that obtain k ts where kt: "(k, Tensor ts) \<in> set x" "1 < length ts"
      by blast
    then have m: "length ts \<in> dims x"
      by (auto simp add: dims_def)
    have m': "length ts \<in> dims x - {1}"
      using m kt(2) by auto
    have "Max (dims x - {1}) = Max (dims x)"
      using finite_dims m kt(2) by (rule Max_without_1)
    moreover have "dims x - {1} \<noteq> {}" "dims x \<noteq> {}"
      using m m' by blast+
    ultimately show ?thesis
      by (simp only: canonical_length_eq dims_filter if_False)
  qed
  have c: "canonical_length x = Some 1"
    if "(\<exists>k t. (k, Tensor [t]) \<in> set x) \<and> (\<forall>k ts. (k, Tensor ts) \<in> set x \<longrightarrow> length ts \<le> 1)"
  proof -
    from that obtain k t where kt: "(k, Tensor [t]) \<in> set x"
      by blast
    then have one: "1 \<in> dims x"
      by (force simp add: dims_def)
    have le: "\<And>l. l \<in> dims x \<Longrightarrow> l \<le> 1"
      using that by (auto simp add: dims_def)
    have "Max (dims x) = 1"
      using finite_dims one le by (intro Max_eqI) auto
    moreover have "dims x \<noteq> {}"
      using one by blast
    ultimately show ?thesis
      by (simp add: canonical_length_eq)
  qed
  show ?thesis
    using a b c by blast
qed

theorem canonical_length_is_max_witness:
  "(\<exists>k ts. (k, Tensor ts) \<in> set [(''obs'', Tensor [Scalar (1::nat), Scalar 2, Scalar 3]),
                     (''lang'', Scalar 7), (''goal'', Tensor [Scalar 9])] \<and> 1 < length ts)
   \<and> canonical_length (filter (\<lambda>(k, v). leading_dim v \<noteq> None \<and> leading_dim v \<noteq> Some 1)
        [(''obs'', Tensor [Scalar (1::nat), Scalar 2, Scalar 3]),
         (''lang'', Scalar 7), (''goal'', Tensor [Scalar 9])])
      = canonical_length [(''obs'', Tensor [Scalar (1::nat), Scalar 2, Scalar 3]),
                     (''lang'', Scalar 7), (''goal'', Tensor [Scalar 9])]
   \<and> canonical_length [(''obs'', Tensor [Scalar (1::nat), Scalar 2, Scalar 3]),
                     (''lang'', Scalar 7), (''goal'', Tensor [Scalar 9])] = Some 3
   \<and> (\<exists>k t. (k, Tensor [t]) \<in> set [(''lang'', Scalar (7::nat)), (''goal'', Tensor [Scalar 9])])
   \<and> canonical_length [(''lang'', Scalar (7::nat)), (''goal'', Tensor [Scalar 9])] = Some 1"
proof -
  let ?x = "[(''obs'', Tensor [Scalar (1::nat), Scalar 2, Scalar 3]),
             (''lang'', Scalar 7), (''goal'', Tensor [Scalar 9])]"
  let ?z = "[(''lang'', Scalar (7::nat)), (''goal'', Tensor [Scalar 9])]"
  have h: "\<exists>k ts. (k, Tensor ts) \<in> set ?x \<and> 1 < length ts"
    by (intro exI [of _ "''obs''"] exI [of _ "[Scalar 1, Scalar 2, Scalar 3]"]) simp
  have c: "canonical_length (filter (\<lambda>(k, v). leading_dim v \<noteq> None \<and> leading_dim v \<noteq> Some 1) ?x)
             = canonical_length ?x"
    using canonical_length_is_max [of ?x, THEN conjunct2, THEN conjunct1, THEN mp, OF h] .
  have v: "canonical_length ?x = Some 3"
    by (simp add: canonical_length_def traj_lens_of_def)
  have h1: "\<exists>k t. (k, Tensor [t]) \<in> set ?z"
    by (intro exI [of _ "''goal''"] exI [of _ "Scalar 9"]) simp
  have h2: "\<forall>k ts. (k, Tensor ts) \<in> set ?z \<longrightarrow> length ts \<le> 1"
    by auto
  have w: "canonical_length ?z = Some 1"
    using canonical_length_is_max [of ?z, THEN conjunct2, THEN conjunct2, THEN mp]
      h1 h2 by blast
  show ?thesis
    using h c v h1 w by blast
qed

text \<open>
  C8. Reserved-field rejection: a dictionary that has the key \<^verbatim>\<open>_i\<close> or \<^verbatim>\<open>_len\<close> is never
  tagged and never overwritten: \<^verbatim>\<open>_add_traj_metadata\<close> fails. When the dictionary has a
  canonical length, so that l.176-177 are reached, the failure is the AssertionError of
  the Python \<^verbatim>\<open>assert\<close> on that key (the spec's ReservedFieldError).
\<close>

theorem reserved_field_rejected:
  assumes "distinct (map fst x)"
    and "''_i'' \<in> set (map fst x) \<or> ''_len'' \<in> set (map fst x)"
  shows "\<exists>e. add_traj_metadata i x = Inl e
           \<and> ((\<exists>n. canonical_length x = Some n) \<longrightarrow> ReservedFieldError e)"
proof (cases "canonical_length x")
  case None
  then show ?thesis
    by (simp add: add_traj_metadata_no_length)
next
  case (Some n)
  show ?thesis
    using add_traj_metadata_reserved [OF assms(1) Some assms(2)]
    by (auto simp add: ReservedFieldError_def)
qed

theorem reserved_field_rejected_witness:
  "distinct (map fst [(''obs'', Tensor [Scalar (Elem (1::nat)), Scalar (Elem 2)]),
                      (''_len'', Scalar (Elem 2))])
   \<and> add_traj_metadata 0 [(''obs'', Tensor [Scalar (Elem (1::nat)), Scalar (Elem 2)]),
                      (''_len'', Scalar (Elem 2))] = Inl (AssertionError ''_len'')
   \<and> ReservedFieldError (AssertionError ''_len'')"
  using reserved_field_rejected [of "[(''obs'', Tensor [Scalar (Elem (1::nat)), Scalar (Elem 2)]),
                      (''_len'', Scalar (Elem 2))]" 0]
  by (simp add: tagger_defs ReservedFieldError_def)

section \<open>Flattening a tagged trajectory and regrouping it\<close>

lemma add_traj_metadata_Inr:
  assumes "distinct (map fst x)" "add_traj_metadata i x = Inr y"
  shows "\<exists>n. canonical_length x = Some n
           \<and> ''_i'' \<notin> set (map fst x) \<and> ''_len'' \<notin> set (map fst x)
           \<and> lengths_equal n x \<and> key_mod_ok n i \<and> key_div_ok n i
           \<and> y = tagged i n x"
proof (cases "canonical_length x")
  case None
  then show ?thesis
    using assms(2) by (simp add: add_traj_metadata_no_length)
next
  case (Some n)
  have r: "''_i'' \<notin> set (map fst x) \<and> ''_len'' \<notin> set (map fst x)"
  proof (rule ccontr)
    assume "\<not> ?thesis"
    then have "''_i'' \<in> set (map fst x) \<or> ''_len'' \<in> set (map fst x)" by blast
    from add_traj_metadata_reserved [OF assms(1) Some this] assms(2)
    show False by simp
  qed
  then have r1: "''_i'' \<notin> set (map fst x)" and r2: "''_len'' \<notin> set (map fst x)"
    by blast+
  from assms(2) have "lengths_equal n x \<and> key_mod_ok n i \<and> key_div_ok n i \<and> y = tagged i n x"
    by (simp add: add_traj_metadata_checked [OF assms(1) Some r1 r2] split: if_splits)
  with Some r show ?thesis by blast
qed

lemma keys_tagged: "map fst (tagged i n x) = map fst x @ [''_i'', ''_len'']"
  by (simp add: tagged_def case_prod_beta comp_def)

lemma map_of_bcast:
  "map_of (map (\<lambda>(k, v). (k, bcast n v)) x) k = map_option (bcast n) (map_of x k)"
  by (simp add: map_of_map)

lemma map_of_tagged_field:
  assumes "distinct (map fst x)" "(k, v) \<in> set x"
  shows "map_of (tagged i n x) k = Some (bcast n v)"
proof -
  have "map_of x k = Some v"
    using assms by simp
  then show ?thesis
    by (simp add: tagged_def map_of_bcast map_add_def)
qed

lemma map_of_tagged_i:
  assumes "''_i'' \<notin> set (map fst x)"
  shows "map_of (tagged i n x) ''_i'' = Some (Tensor (replicate n (Scalar (Int64 i))))"
proof -
  have "map_of x ''_i'' = None"
    using assms by (simp add: map_of_eq_None_iff)
  then show ?thesis
    by (simp add: tagged_def map_of_bcast map_add_def)
qed

lemma map_of_tagged_len:
  assumes "''_len'' \<notin> set (map fst x)"
  shows "map_of (tagged i n x) ''_len'' = Some (Tensor (replicate n (Scalar (Int32 (int n)))))"
proof -
  have "map_of x ''_len'' = None"
    using assms by (simp add: map_of_eq_None_iff)
  then show ?thesis
    by (simp add: tagged_def map_of_bcast map_add_def)
qed

lemma tagged_uniform:
  assumes "canonical_length x = Some n" "lengths_equal n x"
  shows "\<forall>(k, v) \<in> set (tagged i n x). leading_dim v = Some n"
proof -
  have "\<forall>(k, v) \<in> set x. leading_dim (bcast n v) = Some n"
    using assms(2) by (simp only: lengths_equal_iff [OF assms(1)])
  then show ?thesis
    by (auto simp add: tagged_def)
qed

lemma unbatch_element_uniform:
  assumes "y \<noteq> []" "\<forall>(k, v) \<in> set y. leading_dim v = Some n"
  shows "unbatch_element y = Inr (map (\<lambda>j. map (\<lambda>(k, v). (k, slice j v)) y) [0..<n])"
proof -
  obtain p ps where y: "y = p # ps"
    using assms(1) by (cases y) auto
  have "\<forall>l \<in> set (map (leading_dim \<circ> snd) y). l = Some n"
    using assms(2) by auto
  then have h: "(leading_dim \<circ> snd) p = Some n"
    and t: "\<forall>l \<in> set (map (leading_dim \<circ> snd) ps). l = Some n"
    unfolding y by simp_all
  show ?thesis
    unfolding unbatch_element_def y using h t by simp
qed

lemma unbatch_single: "unbatch [y] = unbatch_element y"
  by (simp split: sum.splits)

lemma map_of_slice:
  "map_of (map (\<lambda>(k, v). (k, slice j v)) y) k = map_option (slice j) (map_of y k)"
  by (simp add: map_of_map)

lemma key_func_step:
  assumes "map_of s ''_len'' = Some (Scalar (Int32 (int n)))"
    "map_of s ''_i'' = Some (Scalar (Int64 i))"
  shows "key_func s = Inr (traj_key n i)"
  by (simp add: key_func_def assms traj_key_def)

lemma window_size_key: "key_div_ok n i \<Longrightarrow> window_size_func (traj_key n i) = int n"
  by (simp add: key_div_ok_def window_size_func_def)

lemma group_by_window_same_key:
  assumes "\<forall>e \<in> set es. kf e = Inr K" "wsz K = int w" "es \<noteq> []" "length g + length es = w"
  shows "group_by_window_loop kf rf wsz (if g = [] then [] else [(K, g)]) es
           = (case rf K (g @ es) of Inl err \<Rightarrow> Inl err | Inr out \<Rightarrow> Inr out)"
  using assms
proof (induction es arbitrary: g)
  case Nil
  then show ?case by simp
next
  case (Cons e es)
  have k: "kf e = Inr K" using Cons.prems(1) by simp
  have pos: "\<not> wsz K \<le> 0" using Cons.prems(2,4) by simp
  have grp: "(case map_of (if g = [] then [] else [(K, g)]) K of None \<Rightarrow> [] | Some g' \<Rightarrow> g') @ [e]
               = g @ [e]"
    by simp
  show ?case
  proof (cases "es = []")
    case True
    have full: "int (length (g @ [e])) = wsz K"
      using Cons.prems(2,4) True by simp
    have del: "AList.delete K (if g = [] then [] else [(K, g)]) = []"
      by simp
    show ?thesis
      unfolding True group_by_window_loop.simps k sum.case Let_def grp del
      using pos full by (simp split: sum.splits)
  next
    case False
    have part: "int (length (g @ [e])) \<noteq> wsz K"
      using Cons.prems(2,4) False by (cases es) auto
    have upd: "AList.update K (g @ [e]) (if g = [] then [] else [(K, g)])
                 = (if g @ [e] = [] then [] else [(K, g @ [e])])"
      by simp
    have ih: "group_by_window_loop kf rf wsz (if g @ [e] = [] then [] else [(K, g @ [e])]) es
                = (case rf K ((g @ [e]) @ es) of Inl err \<Rightarrow> Inl err | Inr out \<Rightarrow> Inr out)"
      using Cons.prems False by (intro Cons.IH) auto
    show ?thesis
      unfolding group_by_window_loop.simps k sum.case Let_def grp upd ih
      using pos part by simp
  qed
qed

lemma batch_Nil: "0 < n \<Longrightarrow> batch n [] = Inr []"
  by (subst batch.simps) simp

lemma batch_exact:
  assumes "0 < n" "length ds = n"
  shows "batch (int n) ds = (case stack ds of Inl e \<Rightarrow> Inl e | Inr b \<Rightarrow> Inr [b])"
proof -
  have ne: "ds \<noteq> []" using assms by auto
  have p: "\<not> int n \<le> 0" "0 < int n" using assms(1) by simp_all
  show ?thesis
    using assms(1)
    by (subst batch.simps) (simp add: ne assms(2) batch_Nil split: sum.splits)
qed

lemma unslice: "leading_dim v = Some n \<Longrightarrow> Tensor (map (\<lambda>j. slice j v) [0..<n]) = v"
  by (cases v) (auto simp add: map_nth)

lemma regular_slice_shape:
  "regular v \<Longrightarrow> leading_dim v = Some n \<Longrightarrow> j < n \<Longrightarrow> shape (slice j v) = shape (slice 0 v)"
proof (cases v)
  case (Scalar a)
  then show ?thesis by simp
next
  case (Tensor ts)
  assume r: "regular v" and l: "leading_dim v = Some n" and j: "j < n"
  from l Tensor have len: "length ts = n" by simp
  then have "ts \<noteq> []" using j by auto
  then have "hd ts = ts ! 0" by (simp add: hd_conv_nth)
  moreover have "ts ! j \<in> set ts" using j len by simp
  ultimately show ?thesis
    using r Tensor by simp
qed

lemma regular_bcast: "regular v \<Longrightarrow> regular (bcast n v)"
proof (cases v)
  case (Scalar a)
  then show ?thesis by (simp add: bcast_def)
next
  case (Tensor ts)
  assume r: "regular v"
  show ?thesis
  proof (cases "length ts = 1")
    case True
    then obtain t where t: "ts = [t]" by (cases ts) auto
    with r Tensor have "regular t" by simp
    with Tensor t show ?thesis by (simp add: bcast_def)
  next
    case False
    with r Tensor show ?thesis by (simp add: bcast_def)
  qed
qed

lemma regular_tagged:
  assumes "\<forall>(k, v) \<in> set x. regular v"
  shows "\<forall>(k, v) \<in> set (tagged i n x). regular v"
  using assms by (auto simp add: tagged_def regular_bcast)

lemma stack_Cons:
  "\<forall>s' \<in> set ss. element_spec s' = element_spec s \<Longrightarrow>
   stack (s # ss) =
     Inr (map (\<lambda>j. (fst (s ! j), Tensor (map (\<lambda>s'. snd (s' ! j)) (s # ss)))) [0..<length s])"
  by (simp add: stack_def)

lemma step_spec:
  assumes "\<forall>(k, v) \<in> set y. leading_dim v = Some n" "\<forall>(k, v) \<in> set y. regular v" "j < n"
  shows "element_spec (map (\<lambda>(k, v). (k, slice j v)) y)
           = element_spec (map (\<lambda>(k, v). (k, slice 0 v)) y)"
proof -
  have "shape (slice j v) = shape (slice 0 v)" if "(k, v) \<in> set y" for k v
  proof -
    have "regular v" "leading_dim v = Some n"
      using assms(1,2) that by blast+
    then show ?thesis
      using assms(3) by (rule regular_slice_shape)
  qed
  then show ?thesis
    by (auto simp add: element_spec_def)
qed

lemma step_column:
  assumes "\<forall>(k, v) \<in> set y. leading_dim v = Some n" "p < length y"
  shows "(fst (map (\<lambda>(k, v). (k, slice 0 v)) y ! p),
          Tensor (map (\<lambda>s'. snd (s' ! p)) (map (\<lambda>j. map (\<lambda>(k, v). (k, slice j v)) y) [0..<n])))
         = y ! p"
proof -
  obtain k v where kv: "y ! p = (k, v)" by (cases "y ! p")
  have "y ! p \<in> set y" using assms(2) by (rule nth_mem)
  then have l: "leading_dim v = Some n" using assms(1) kv by auto
  have a: "fst (map (\<lambda>(k, v). (k, slice 0 v)) y ! p) = k"
    using assms(2) kv by simp
  have "snd (map (\<lambda>(k, v). (k, slice j v)) y ! p) = slice j v" for j
    using assms(2) kv by simp
  then have b: "map (\<lambda>s'. snd (s' ! p)) (map (\<lambda>j. map (\<lambda>(k, v). (k, slice j v)) y) [0..<n])
          = map (\<lambda>j. slice j v) [0..<n]"
    by (simp only: map_map comp_def)
  show ?thesis
    unfolding a b unslice [OF l] kv ..
qed

lemma stack_steps:
  assumes "0 < n" "\<forall>(k, v) \<in> set y. leading_dim v = Some n" "\<forall>(k, v) \<in> set y. regular v"
  shows "stack (map (\<lambda>j. map (\<lambda>(k, v). (k, slice j v)) y) [0..<n]) = Inr y"
proof -
  let ?step = "\<lambda>j. map (\<lambda>(k, v). (k, slice j v)) y"
  have upt: "[0..<n] = 0 # [Suc 0..<n]"
    using assms(1) by (simp add: upt_conv_Cons)
  have st: "map ?step [0..<n] = ?step 0 # map ?step [Suc 0..<n]"
    by (subst upt) (simp only: list.map)
  have all: "\<forall>s' \<in> set (map ?step [Suc 0..<n]). element_spec s' = element_spec (?step 0)"
  proof
    fix s' assume "s' \<in> set (map ?step [Suc 0..<n])"
    then obtain j where "j < n" "s' = ?step j" by auto
    then show "element_spec s' = element_spec (?step 0)"
      using step_spec [OF assms(2,3)] by blast
  qed
  have len: "length (?step 0) = length y" by simp
  have "stack (map ?step [0..<n])
          = Inr (map (\<lambda>p. (fst (?step 0 ! p), Tensor (map (\<lambda>s'. snd (s' ! p)) (map ?step [0..<n]))))
                   [0..<length y])"
    using stack_Cons [OF all] unfolding st [symmetric] len .
  also have "\<dots> = Inr (map (\<lambda>p. y ! p) [0..<length y])"
    using step_column [OF assms(2)] by (simp only: sum.inject map_eq_conv) simp
  also have "\<dots> = Inr y"
    by (simp add: map_nth)
  finally show ?thesis .
qed

text \<open>
  C7. Broadcast and emission: a valid dictionary (distinct keys, none of them reserved, a
  canonical length \<open>n < 2^12\<close>, every field with no leading dimension, the leading
  dimension 1 or \<open>n\<close>) with an index \<open>0 \<le> i < 2^51\<close> is accepted by the tagger. In the
  result every scalar field is \<open>n\<close> copies of the scalar, every field of leading dimension
  1 is \<open>n\<close> copies of its one slice, every other field is unchanged and has length \<open>n\<close>,
  and \<^verbatim>\<open>_i\<close> and \<^verbatim>\<open>_len\<close> are \<open>n\<close> copies of the index and of \<open>n\<close>. Unbatching the result
  gives exactly \<open>n\<close> steps with the keys of the input followed by \<^verbatim>\<open>_i\<close> and \<^verbatim>\<open>_len\<close>;
  step \<open>j\<close> carries the index, the length, each scalar and each one-slice field as it is,
  and slice \<open>j\<close> of every other field.
\<close>

theorem tagged_steps:
  assumes "distinct (map fst x)" "canonical_length x = Some n"
    and "''_i'' \<notin> set (map fst x)" "''_len'' \<notin> set (map fst x)"
    and "\<forall>(k, v) \<in> set x.
           leading_dim v = None \<or> leading_dim v = Some 1 \<or> leading_dim v = Some n"
    and "0 \<le> i" "i < 2 ^ 51" "n < 2 ^ 12"
  shows "\<exists>y steps. add_traj_metadata i x = Inr y
     \<and> (\<forall>k a. (k, Scalar a) \<in> set x \<longrightarrow> map_of y k = Some (Tensor (replicate n (Scalar a))))
     \<and> (\<forall>k t. (k, Tensor [t]) \<in> set x \<longrightarrow> map_of y k = Some (Tensor (replicate n t)))
     \<and> (\<forall>k ts. (k, Tensor ts) \<in> set x \<and> length ts \<noteq> 1
           \<longrightarrow> length ts = n \<and> map_of y k = Some (Tensor ts))
     \<and> map_of y ''_i'' = Some (Tensor (replicate n (Scalar (Int64 i))))
     \<and> map_of y ''_len'' = Some (Tensor (replicate n (Scalar (Int32 (int n)))))
     \<and> unbatch [y] = Inr steps \<and> length steps = n
     \<and> (\<forall>j < n.
           map fst (steps ! j) = map fst x @ [''_i'', ''_len'']
         \<and> map_of (steps ! j) ''_i'' = Some (Scalar (Int64 i))
         \<and> map_of (steps ! j) ''_len'' = Some (Scalar (Int32 (int n)))
         \<and> (\<forall>k a. (k, Scalar a) \<in> set x \<longrightarrow> map_of (steps ! j) k = Some (Scalar a))
         \<and> (\<forall>k t. (k, Tensor [t]) \<in> set x \<longrightarrow> map_of (steps ! j) k = Some t)
         \<and> (\<forall>k ts. (k, Tensor ts) \<in> set x \<and> length ts \<noteq> 1
               \<longrightarrow> map_of (steps ! j) k = Some (ts ! j)))"
proof -
  define y where "y = tagged i n x"
  note n = assms(2) and r1 = assms(3) and r2 = assms(4) and y = y_def
  have le: "lengths_equal n x"
    using assms(5) by (simp only: lengths_equal_iff' [OF assms(2)])
  have ok: "key_mod_ok n i \<and> key_div_ok n i"
    using assms(6-8) by (rule key_ok_in_budget)
  have acc: "add_traj_metadata i x = Inr y"
    unfolding y using le ok by (simp add: add_traj_metadata_checked [OF assms(1-4)])
  let ?steps = "map (\<lambda>j. map (\<lambda>(k, v). (k, slice j v)) y) [0..<n]"
  have f: "map_of y k = Some (bcast n v)" if "(k, v) \<in> set x" for k v
    unfolding y using assms(1) that by (rule map_of_tagged_field)
  have fi: "map_of y ''_i'' = Some (Tensor (replicate n (Scalar (Int64 i))))"
    unfolding y using r1 by (rule map_of_tagged_i)
  have fl: "map_of y ''_len'' = Some (Tensor (replicate n (Scalar (Int32 (int n)))))"
    unfolding y using r2 by (rule map_of_tagged_len)
  have a: "\<forall>k a. (k, Scalar a) \<in> set x \<longrightarrow> map_of y k = Some (Tensor (replicate n (Scalar a)))"
    using f by (auto simp add: bcast_def)
  have b: "\<forall>k t. (k, Tensor [t]) \<in> set x \<longrightarrow> map_of y k = Some (Tensor (replicate n t))"
    using f by (auto simp add: bcast_def)
  have c: "\<forall>k ts. (k, Tensor ts) \<in> set x \<and> length ts \<noteq> 1
             \<longrightarrow> length ts = n \<and> map_of y k = Some (Tensor ts)"
  proof (intro allI impI)
    fix k ts
    assume h: "(k, Tensor ts) \<in> set x \<and> length ts \<noteq> 1"
    have "\<forall>(k, v) \<in> set x. leading_dim (bcast n v) = Some n"
      using le by (simp only: lengths_equal_iff [OF n])
    with h have "leading_dim (bcast n (Tensor ts)) = Some n" by blast
    with h have "length ts = n" by (simp add: bcast_def)
    moreover have "map_of y k = Some (Tensor ts)"
      using f [of k "Tensor ts"] h by (simp add: bcast_def)
    ultimately show "length ts = n \<and> map_of y k = Some (Tensor ts)" by blast
  qed
  have ne: "y \<noteq> []" unfolding y by (simp add: tagged_def)
  have u: "unbatch [y] = Inr ?steps"
    unfolding unbatch_single y
    using ne [unfolded y] tagged_uniform [OF n le]
    by (rule unbatch_element_uniform)
  have len: "length ?steps = n" by simp
  have s: "map fst (?steps ! j) = map fst x @ [''_i'', ''_len'']
         \<and> map_of (?steps ! j) ''_i'' = Some (Scalar (Int64 i))
         \<and> map_of (?steps ! j) ''_len'' = Some (Scalar (Int32 (int n)))
         \<and> (\<forall>k a. (k, Scalar a) \<in> set x \<longrightarrow> map_of (?steps ! j) k = Some (Scalar a))
         \<and> (\<forall>k t. (k, Tensor [t]) \<in> set x \<longrightarrow> map_of (?steps ! j) k = Some t)
         \<and> (\<forall>k ts. (k, Tensor ts) \<in> set x \<and> length ts \<noteq> 1
               \<longrightarrow> map_of (?steps ! j) k = Some (ts ! j))" if j: "j < n" for j
  proof -
    have sj: "?steps ! j = map (\<lambda>(k, v). (k, slice j v)) y"
      using j by simp
    have k: "map fst (?steps ! j) = map fst x @ [''_i'', ''_len'']"
      unfolding sj using keys_tagged [of i n x]
      by (simp add: y case_prod_beta comp_def)
    have l: "map_of (map (\<lambda>(k, v). (k, slice j v)) y) k = map_option (slice j) (map_of y k)"
      for k by (rule map_of_slice)
    have s1: "map_of (?steps ! j) ''_i'' = Some (Scalar (Int64 i))"
      unfolding sj l fi using j by simp
    have s2: "map_of (?steps ! j) ''_len'' = Some (Scalar (Int32 (int n)))"
      unfolding sj l fl using j by simp
    have s3: "\<forall>k a. (k, Scalar a) \<in> set x \<longrightarrow> map_of (?steps ! j) k = Some (Scalar a)"
      unfolding sj l using a j by simp
    have s4: "\<forall>k t. (k, Tensor [t]) \<in> set x \<longrightarrow> map_of (?steps ! j) k = Some t"
      unfolding sj l using b j by simp
    have s5: "\<forall>k ts. (k, Tensor ts) \<in> set x \<and> length ts \<noteq> 1
               \<longrightarrow> map_of (?steps ! j) k = Some (ts ! j)"
      unfolding sj l using c by simp
    show ?thesis
      using k s1 s2 s3 s4 s5 by blast
  qed
  show ?thesis
    using acc a b c fi fl u len s by blast
qed

theorem tagged_steps_witness:
  "canonical_length
        [(''obs'', Tensor [Scalar (Elem (10::nat)), Scalar (Elem 11), Scalar (Elem 12),
                           Scalar (Elem 13), Scalar (Elem 14)]),
         (''lang'', Scalar (Elem 7)),
         (''goal'', Tensor [Tensor [Scalar (Elem 1), Scalar (Elem 2)]])] = Some 5
   \<and> add_traj_metadata 3
        [(''obs'', Tensor [Scalar (Elem (10::nat)), Scalar (Elem 11), Scalar (Elem 12),
                           Scalar (Elem 13), Scalar (Elem 14)]),
         (''lang'', Scalar (Elem 7)),
         (''goal'', Tensor [Tensor [Scalar (Elem 1), Scalar (Elem 2)]])]
      = Inr
        [(''obs'', Tensor [Scalar (Elem (10::nat)), Scalar (Elem 11), Scalar (Elem 12),
                           Scalar (Elem 13), Scalar (Elem 14)]),
         (''lang'', Tensor [Scalar (Elem 7), Scalar (Elem 7), Scalar (Elem 7),
                            Scalar (Elem 7), Scalar (Elem 7)]),
         (''goal'', Tensor [Tensor [Scalar (Elem 1), Scalar (Elem 2)], Tensor [Scalar (Elem 1), Scalar (Elem 2)], Tensor [Scalar (Elem 1), Scalar (Elem 2)], Tensor [Scalar (Elem 1), Scalar (Elem 2)], Tensor [Scalar (Elem 1), Scalar (Elem 2)]]),
         (''_i'', Tensor [Scalar (Int64 3), Scalar (Int64 3), Scalar (Int64 3),
                          Scalar (Int64 3), Scalar (Int64 3)]),
         (''_len'', Tensor [Scalar (Int32 5), Scalar (Int32 5), Scalar (Int32 5),
                            Scalar (Int32 5), Scalar (Int32 5)])]
   \<and> (\<exists>steps.
        unbatch [
        [(''obs'', Tensor [Scalar (Elem (10::nat)), Scalar (Elem 11), Scalar (Elem 12),
                           Scalar (Elem 13), Scalar (Elem 14)]),
         (''lang'', Tensor [Scalar (Elem 7), Scalar (Elem 7), Scalar (Elem 7),
                            Scalar (Elem 7), Scalar (Elem 7)]),
         (''goal'', Tensor [Tensor [Scalar (Elem 1), Scalar (Elem 2)], Tensor [Scalar (Elem 1), Scalar (Elem 2)], Tensor [Scalar (Elem 1), Scalar (Elem 2)], Tensor [Scalar (Elem 1), Scalar (Elem 2)], Tensor [Scalar (Elem 1), Scalar (Elem 2)]]),
         (''_i'', Tensor [Scalar (Int64 3), Scalar (Int64 3), Scalar (Int64 3),
                          Scalar (Int64 3), Scalar (Int64 3)]),
         (''_len'', Tensor [Scalar (Int32 5), Scalar (Int32 5), Scalar (Int32 5),
                            Scalar (Int32 5), Scalar (Int32 5)])]] = Inr steps
        \<and> length steps = 5
        \<and> map_of (steps ! 4) ''lang'' = Some (Scalar (Elem 7))
        \<and> map_of (steps ! 4) ''goal'' = Some (Tensor [Scalar (Elem 1), Scalar (Elem 2)])
        \<and> map_of (steps ! 4) ''obs'' = Some (Scalar (Elem 14))
        \<and> map_of (steps ! 4) ''_i'' = Some (Scalar (Int64 3))
        \<and> map_of (steps ! 4) ''_len'' = Some (Scalar (Int32 5)))"
proof -
  let ?x = "[(''obs'', Tensor [Scalar (Elem (10::nat)), Scalar (Elem 11), Scalar (Elem 12),
                           Scalar (Elem 13), Scalar (Elem 14)]),
         (''lang'', Scalar (Elem 7)),
         (''goal'', Tensor [Tensor [Scalar (Elem 1), Scalar (Elem 2)]])]"
  let ?y = "[(''obs'', Tensor [Scalar (Elem (10::nat)), Scalar (Elem 11), Scalar (Elem 12),
                           Scalar (Elem 13), Scalar (Elem 14)]),
         (''lang'', Tensor [Scalar (Elem 7), Scalar (Elem 7), Scalar (Elem 7),
                            Scalar (Elem 7), Scalar (Elem 7)]),
         (''goal'', Tensor [Tensor [Scalar (Elem 1), Scalar (Elem 2)], Tensor [Scalar (Elem 1), Scalar (Elem 2)], Tensor [Scalar (Elem 1), Scalar (Elem 2)], Tensor [Scalar (Elem 1), Scalar (Elem 2)], Tensor [Scalar (Elem 1), Scalar (Elem 2)]]),
         (''_i'', Tensor [Scalar (Int64 3), Scalar (Int64 3), Scalar (Int64 3),
                          Scalar (Int64 3), Scalar (Int64 3)]),
         (''_len'', Tensor [Scalar (Int32 5), Scalar (Int32 5), Scalar (Int32 5),
                            Scalar (Int32 5), Scalar (Int32 5)])]"
  have d: "distinct (map fst ?x)" by simp
  have c: "canonical_length ?x = Some 5"
    by (simp add: canonical_length_def traj_lens_of_def)
  have r: "''_i'' \<notin> set (map fst ?x)" "''_len'' \<notin> set (map fst ?x)"
    by simp_all
  have l: "\<forall>(k, v) \<in> set ?x.
             leading_dim v = None \<or> leading_dim v = Some 1 \<or> leading_dim v = Some 5"
    by simp
  have b: "(0::int) \<le> 3" "(3::int) < 2 ^ 51" "(5::nat) < 2 ^ 12"
    by simp_all
  have t: "add_traj_metadata 3 ?x = Inr ?y"
    by (simp add: tagger_defs)
  from tagged_steps [OF d c r l b] obtain y steps where
    y: "add_traj_metadata 3 ?x = Inr y" and u: "unbatch [y] = Inr steps" "length steps = 5"
    and s: "\<forall>j < 5.
           map fst (steps ! j) = map fst ?x @ [''_i'', ''_len'']
         \<and> map_of (steps ! j) ''_i'' = Some (Scalar (Int64 3))
         \<and> map_of (steps ! j) ''_len'' = Some (Scalar (Int32 (int 5)))
         \<and> (\<forall>k a. (k, Scalar a) \<in> set ?x \<longrightarrow> map_of (steps ! j) k = Some (Scalar a))
         \<and> (\<forall>k t. (k, Tensor [t]) \<in> set ?x \<longrightarrow> map_of (steps ! j) k = Some t)
         \<and> (\<forall>k ts. (k, Tensor ts) \<in> set ?x \<and> length ts \<noteq> 1
               \<longrightarrow> map_of (steps ! j) k = Some (ts ! j))"
    by blast
  from y t have yy: "y = ?y" by simp
  have s4: "map_of (steps ! 4) ''_i'' = Some (Scalar (Int64 3))"
    "map_of (steps ! 4) ''_len'' = Some (Scalar (Int32 5))"
    "map_of (steps ! 4) ''lang'' = Some (Scalar (Elem 7))"
    "map_of (steps ! 4) ''goal'' = Some (Tensor [Scalar (Elem 1), Scalar (Elem 2)])"
    using s [rule_format, of 4] by simp_all
  have lt: "(4::nat) < 5" by simp
  have o: "\<forall>k ts. (k, Tensor ts) \<in> set ?x \<and> length ts \<noteq> 1
             \<longrightarrow> map_of (steps ! 4) k = Some (ts ! 4)"
    using s [rule_format, OF lt] by blast
  have s5: "map_of (steps ! 4) ''obs'' = Some (Scalar (Elem 14))"
    using o [rule_format, of "''obs''"
               "[Scalar (Elem 10), Scalar (Elem 11), Scalar (Elem 12),
                 Scalar (Elem 13), Scalar (Elem 14)]"]
    by simp
  show ?thesis
    using c t u [unfolded yy] s4 s5 by blast
qed

text \<open>
  C2. Regrouping round-trip: for a dictionary of regular tensors with distinct keys that the
  tagger accepts with a canonical length \<open>n\<close> between 1 and 4095, unbatching the tagged
  trajectory gives \<open>n\<close> steps, each with the key \<open>n * 2^51 + i\<close>, whose window size
  \<open>key // 2^51\<close> is \<open>n\<close>; \<^verbatim>\<open>group_by_window\<close> with the functions of l.85-87 turns these
  steps back into one batch, equal to the tagged trajectory in every field, \<^verbatim>\<open>_len\<close>
  included.
\<close>

theorem regroup_round_trip:
  assumes "distinct (map fst x)" "\<forall>(k, v) \<in> set x. regular v"
    and "add_traj_metadata i x = Inr y" "canonical_length x = Some n"
    and "1 \<le> n" "n \<le> 4095"
  shows "\<exists>steps. unbatch [y] = Inr steps \<and> length steps = n
           \<and> (\<forall>s \<in> set steps. key_func s = Inr (int n * 2 ^ 51 + i))
           \<and> window_size_func (int n * 2 ^ 51 + i) = int n
           \<and> regroup steps = Inr [y]
           \<and> map_of y ''_len'' = Some (Tensor (replicate n (Scalar (Int32 (int n)))))"
proof -
  obtain n' where n': "canonical_length x = Some n'"
    and r1: "''_i'' \<notin> set (map fst x)" and r2: "''_len'' \<notin> set (map fst x)"
    and le: "lengths_equal n' x" and km: "key_mod_ok n' i" and kd: "key_div_ok n' i"
    and y': "y = tagged i n' x"
    using add_traj_metadata_Inr [OF assms(1,3)] by blast
  from n' assms(4) have nn: "n' = n" by simp
  note le = le [unfolded nn] and km = km [unfolded nn] and kd = kd [unfolded nn]
    and y = y' [unfolded nn]
  let ?steps = "map (\<lambda>j. map (\<lambda>(k, v). (k, slice j v)) y) [0..<n]"
  have uni: "\<forall>(k, v) \<in> set y. leading_dim v = Some n"
    unfolding y using assms(4) le by (rule tagged_uniform)
  have reg: "\<forall>(k, v) \<in> set y. regular v"
    unfolding y using assms(2) by (rule regular_tagged)
  have ne: "y \<noteq> []" unfolding y by (simp add: tagged_def)
  have u: "unbatch [y] = Inr ?steps"
    unfolding unbatch_single using ne uni by (rule unbatch_element_uniform)
  have len: "length ?steps = n" by simp
  have fl: "map_of y ''_len'' = Some (Tensor (replicate n (Scalar (Int32 (int n)))))"
    unfolding y using r2 by (rule map_of_tagged_len)
  have fi: "map_of y ''_i'' = Some (Tensor (replicate n (Scalar (Int64 i))))"
    unfolding y using r1 by (rule map_of_tagged_i)
  have range: "0 \<le> i" "i < 2 ^ 51" "n < 2 ^ 12"
    using key_mod_ok_range [OF km] key_div_ok_range [OF kd] by simp_all
  have K: "traj_key n i = int n * 2 ^ 51 + i"
    using range by (rule traj_key_exact)
  have keys: "\<forall>s \<in> set ?steps. key_func s = Inr (traj_key n i)"
  proof
    fix s assume "s \<in> set ?steps"
    then obtain j where j: "j < n" and s: "s = map (\<lambda>(k, v). (k, slice j v)) y"
      by auto
    have "map_of s ''_len'' = Some (Scalar (Int32 (int n)))"
      unfolding s map_of_slice fl using j by simp
    moreover have "map_of s ''_i'' = Some (Scalar (Int64 i))"
      unfolding s map_of_slice fi using j by simp
    ultimately show "key_func s = Inr (traj_key n i)"
      by (rule key_func_step)
  qed
  have w: "window_size_func (traj_key n i) = int n"
    using kd by (rule window_size_key)
  have pos: "0 < n" using assms(5) by simp
  have sne: "?steps \<noteq> []" using pos by simp
  have red: "reduce_func (traj_key n i) ?steps = Inr [y]"
  proof -
    have "reduce_func (traj_key n i) ?steps = batch (int n) ?steps"
      using w by (simp add: reduce_func_def window_size_func_def)
    also have "\<dots> = (case stack ?steps of Inl e \<Rightarrow> Inl e | Inr b \<Rightarrow> Inr [b])"
      using pos len by (rule batch_exact)
    also have "\<dots> = Inr [y]"
      by (simp only: stack_steps [OF pos uni reg] sum.case)
    finally show ?thesis .
  qed
  have "regroup ?steps
          = (case reduce_func (traj_key n i) ([] @ ?steps) of
               Inl err \<Rightarrow> Inl err | Inr out \<Rightarrow> Inr out)"
    unfolding regroup_def group_by_window_def
    using group_by_window_same_key [of ?steps key_func "traj_key n i" window_size_func n "[]" reduce_func]
      keys w sne len by simp
  then have g: "regroup ?steps = Inr [y]"
    by (simp only: append_Nil red sum.case)
  show ?thesis
    using u len keys w g fl unfolding K by blast
qed

theorem regroup_round_trip_witness:
  "add_traj_metadata 7 [(''obs'', Tensor [Tensor [Scalar (Elem (1::nat)), Scalar (Elem 2)],
                                           Tensor [Scalar (Elem 3), Scalar (Elem 4)]]),
                        (''lang'', Scalar (Elem 9))]
     = Inr [(''obs'', Tensor [Tensor [Scalar (Elem 1), Scalar (Elem 2)],
                              Tensor [Scalar (Elem 3), Scalar (Elem 4)]]),
            (''lang'', Tensor [Scalar (Elem 9), Scalar (Elem 9)]),
            (''_i'', Tensor [Scalar (Int64 7), Scalar (Int64 7)]),
            (''_len'', Tensor [Scalar (Int32 2), Scalar (Int32 2)])]
   \<and> (\<exists>steps.
         unbatch [[(''obs'', Tensor [Tensor [Scalar (Elem (1::nat)), Scalar (Elem 2)],
                                     Tensor [Scalar (Elem 3), Scalar (Elem 4)]]),
                   (''lang'', Tensor [Scalar (Elem 9), Scalar (Elem 9)]),
                   (''_i'', Tensor [Scalar (Int64 7), Scalar (Int64 7)]),
                   (''_len'', Tensor [Scalar (Int32 2), Scalar (Int32 2)])]] = Inr steps
       \<and> length steps = 2
       \<and> regroup steps
           = Inr [[(''obs'', Tensor [Tensor [Scalar (Elem 1), Scalar (Elem 2)],
                                     Tensor [Scalar (Elem 3), Scalar (Elem 4)]]),
                   (''lang'', Tensor [Scalar (Elem 9), Scalar (Elem 9)]),
                   (''_i'', Tensor [Scalar (Int64 7), Scalar (Int64 7)]),
                   (''_len'', Tensor [Scalar (Int32 2), Scalar (Int32 2)])]])"
proof -
  let ?x = "[(''obs'', Tensor [Tensor [Scalar (Elem (1::nat)), Scalar (Elem 2)],
                               Tensor [Scalar (Elem 3), Scalar (Elem 4)]]),
             (''lang'', Scalar (Elem 9))]"
  let ?y = "[(''obs'', Tensor [Tensor [Scalar (Elem (1::nat)), Scalar (Elem 2)],
                               Tensor [Scalar (Elem 3), Scalar (Elem 4)]]),
             (''lang'', Tensor [Scalar (Elem 9), Scalar (Elem 9)]),
             (''_i'', Tensor [Scalar (Int64 7), Scalar (Int64 7)]),
             (''_len'', Tensor [Scalar (Int32 2), Scalar (Int32 2)])]"
  have d: "distinct (map fst ?x)" by simp
  have r: "\<forall>(k, v) \<in> set ?x. regular v" by simp
  have t: "add_traj_metadata 7 ?x = Inr ?y"
    by (simp add: tagger_defs)
  have c: "canonical_length ?x = Some 2"
    by (simp add: canonical_length_def traj_lens_of_def)
  have b: "1 \<le> (2::nat)" "(2::nat) \<le> 4095" by simp_all
  from regroup_round_trip [OF d r t c b] obtain steps where
    "unbatch [?y] = Inr steps" "length steps = 2" "regroup steps = Inr [?y]"
    by blast
  with t show ?thesis by blast
qed

section \<open>The stages of \<^verbatim>\<open>make_dataset\<close>\<close>

lemma and_then_Inr [simp]: "and_then (Inr v) f = f v"
  by (simp add: and_then_def)

lemma and_then_Inl [simp]: "and_then (Inl e) f = Inl e"
  by (simp add: and_then_def)

text \<open>
  Each stage depends on the operations that it calls only: two environments that agree
  on them give the same result.
\<close>

lemma apply_transforms_frame:
  assumes "map_dicts tf' = map_dicts tf" and "cache_op tf' = cache_op tf"
  shows "apply_transforms tf' ts det = apply_transforms tf ts det"
proof (induction ts)
  case Nil
  show ?case by (rule ext) simp
next
  case (Cons t ts)
  show ?case by (rule ext, cases t) (simp_all add: Cons.IH assms)
qed

lemma get_type_spec_frame:
  assumes "TFRecordDataset tf' = TFRecordDataset tf" and "next_iter tf' = next_iter tf"
    and "parse_example tf' = parse_example tf"
  shows "get_type_spec tf' = get_type_spec tf"
  by (rule ext) (simp add: get_type_spec_def assms)

lemma decode_example_frame:
  assumes "parse_tensor tf' = parse_tensor tf"
  shows "decode_example tf' = decode_example tf"
  by (intro ext) (simp add: decode_example_def assms)

lemma tagged_dataset_frame:
  assumes "TFRecordDataset tf' = TFRecordDataset tf" and "with_options tf' = with_options tf"
    and "map_records tf' = map_records tf" and "parse_tensor tf' = parse_tensor tf"
    and "enumerate_op tf' = enumerate_op tf" and "map_indexed tf' = map_indexed tf"
  shows "tagged_dataset tf' = tagged_dataset tf"
  by (intro ext) (simp add: tagged_dataset_def assms decode_example_frame [OF assms(4)])

lemma output_stage_frame:
  assumes "repeat_op tf' = repeat_op tf" and "batch_op tf' = batch_op tf"
    and "prefetch_op tf' = prefetch_op tf"
    and "1 < shuffle_buffer_size cfg \<Longrightarrow> shuffle_op tf' = shuffle_op tf"
  shows "output_stage tf' cfg = output_stage tf cfg"
  by (rule ext) (simp add: output_stage_def assms)

lemma frames_frame:
  assumes "map_dicts tf' = map_dicts tf" and "cache_op tf' = cache_op tf"
    and "unbatch_op tf' = unbatch_op tf" and "batch_op tf' = batch_op tf"
    and "\<not> traj_transforms_first cfg \<Longrightarrow> group_by_window_op tf' = group_by_window_op tf"
  shows "frames tf' cfg = frames tf cfg"
proof -
  have r: "reduce_func_op tf' = reduce_func_op tf"
    by (intro ext) (simp add: reduce_func_op_def assms)
  show ?thesis
    by (rule ext)
      (simp add: frames_def apply_transforms_frame [OF assms(1,2)] assms(3,5) r)
qed

text \<open>The two forms of l.72-94, one for each value of \<^verbatim>\<open>traj_transforms_first\<close>.\<close>

lemma frames_first:
  assumes "traj_transforms_first cfg"
  shows "frames tf cfg ds =
     and_then (apply_transforms tf (traj_transforms cfg) False ds) (\<lambda>ds.
     and_then (unbatch_op tf ds) (apply_transforms tf (frame_transforms cfg) False))"
  using assms
  by (auto simp add: frames_def and_then_def split: sum.splits)

lemma frames_regroup:
  assumes "\<not> traj_transforms_first cfg"
  shows "frames tf cfg ds =
     and_then (unbatch_op tf ds) (\<lambda>ds.
     and_then (apply_transforms tf (frame_transforms cfg) True ds) (\<lambda>ds.
     and_then (group_by_window_op tf key_func (reduce_func_op tf) window_size_func ds) (\<lambda>ds.
     and_then (apply_transforms tf (traj_transforms cfg) False ds) (unbatch_op tf))))"
  using assms by (simp add: frames_def)

text \<open>The two forms of l.96-106, with and without the shuffle buffer.\<close>

lemma output_stage_off:
  assumes "shuffle_buffer_size cfg \<le> 1"
  shows "output_stage tf cfg =
     (\<lambda>ds. and_then (repeat_op tf ds) (\<lambda>ds.
        and_then (batch_op tf (batch_size cfg) ds) (prefetch_op tf)))"
  using assms by (intro ext) (simp add: output_stage_def)

lemma output_stage_on:
  assumes "1 < shuffle_buffer_size cfg"
  shows "output_stage tf cfg =
     (\<lambda>ds. and_then (shuffle_op tf (shuffle_buffer_size cfg) (seed cfg) ds) (\<lambda>ds.
        and_then (repeat_op tf ds) (\<lambda>ds.
        and_then (batch_op tf (batch_size cfg) ds) (prefetch_op tf))))"
  using assms by (intro ext) (simp add: output_stage_def)

lemma make_dataset_frame:
  assumes "glob tf' = glob tf"
    and "TFRecordDataset tf' = TFRecordDataset tf" and "next_iter tf' = next_iter tf"
    and "parse_example tf' = parse_example tf" and "parse_tensor tf' = parse_tensor tf"
    and "with_options tf' = with_options tf" and "map_records tf' = map_records tf"
    and "enumerate_op tf' = enumerate_op tf" and "map_indexed tf' = map_indexed tf"
    and "map_dicts tf' = map_dicts tf" and "cache_op tf' = cache_op tf"
    and "unbatch_op tf' = unbatch_op tf" and "batch_op tf' = batch_op tf"
    and "repeat_op tf' = repeat_op tf" and "prefetch_op tf' = prefetch_op tf"
    and "\<not> traj_transforms_first cfg \<Longrightarrow> group_by_window_op tf' = group_by_window_op tf"
    and "1 < shuffle_buffer_size cfg \<Longrightarrow> random_shuffle tf' = random_shuffle tf"
    and "1 < shuffle_buffer_size cfg \<Longrightarrow> shuffle_op tf' = shuffle_op tf"
  shows "make_dataset tf' cfg = make_dataset tf cfg"
proof -
  have g: "get_type_spec tf' = get_type_spec tf"
    by (rule get_type_spec_frame) (rule assms)+
  have t: "tagged_dataset tf' = tagged_dataset tf"
    by (rule tagged_dataset_frame) (rule assms)+
  have f: "frames tf' cfg = frames tf cfg"
    by (rule frames_frame) (rule assms | assumption)+
  have out: "output_stage tf' cfg = output_stage tf cfg"
    by (rule output_stage_frame) (rule assms | assumption)+
  show ?thesis
    by (cases "1 < shuffle_buffer_size cfg")
      (simp_all add: make_dataset_def g t f out assms(1,17))
qed

section \<open>The claims on \<^verbatim>\<open>make_dataset\<close>\<close>

text \<open>
  Claim C9. When \<^verbatim>\<open>traj_transforms_first\<close> is true, \<^verbatim>\<open>make_dataset\<close> skips the windowed
  regrouping entirely. Whatever \<^verbatim>\<open>Dataset.group_by_window\<close> would do, and were it to
  raise on every call, the result of \<^verbatim>\<open>make_dataset\<close> is the same: the operation is not
  called. The stages of l.72-94 are then the trajectory transforms, applied once to the
  dataset of the tagged trajectories, the flattening, and the frame transforms, and
  the frames go to the output stage as they are. When \<^verbatim>\<open>traj_transforms_first\<close> is false
  the stages are the flattening, the frame transforms, \<^verbatim>\<open>group_by_window\<close> with the key,
  batch and window-size functions of l.85-87, the trajectory transforms on the regrouped
  trajectories, and the second flattening.
\<close>

theorem traj_transforms_first_skips_regrouping:
  "(traj_transforms_first cfg \<longrightarrow>
      make_dataset (tf\<lparr>group_by_window_op := g\<rparr>) cfg = make_dataset tf cfg \<and>
      frames (tf\<lparr>group_by_window_op := g\<rparr>) cfg ds = frames tf cfg ds \<and>
      frames tf cfg ds =
        and_then (apply_transforms tf (traj_transforms cfg) False ds) (\<lambda>ds.
        and_then (unbatch_op tf ds) (apply_transforms tf (frame_transforms cfg) False))) \<and>
   (\<not> traj_transforms_first cfg \<longrightarrow>
      frames tf cfg ds =
        and_then (unbatch_op tf ds) (\<lambda>ds.
        and_then (apply_transforms tf (frame_transforms cfg) True ds) (\<lambda>ds.
        and_then (group_by_window_op tf key_func (reduce_func_op tf) window_size_func ds)
          (\<lambda>ds.
        and_then (apply_transforms tf (traj_transforms cfg) False ds) (unbatch_op tf)))))"
proof (intro conjI impI)
  assume first: "traj_transforms_first cfg"
  show "make_dataset (tf\<lparr>group_by_window_op := g\<rparr>) cfg = make_dataset tf cfg"
    by (rule make_dataset_frame) (simp_all add: first)
  show "frames (tf\<lparr>group_by_window_op := g\<rparr>) cfg ds = frames tf cfg ds"
    by (rule fun_cong [OF frames_frame]) (simp_all add: first)
  show "frames tf cfg ds =
        and_then (apply_transforms tf (traj_transforms cfg) False ds) (\<lambda>ds.
        and_then (unbatch_op tf ds) (apply_transforms tf (frame_transforms cfg) False))"
    by (rule frames_first [OF first])
next
  assume "\<not> traj_transforms_first cfg"
  then show "frames tf cfg ds =
        and_then (unbatch_op tf ds) (\<lambda>ds.
        and_then (apply_transforms tf (frame_transforms cfg) True ds) (\<lambda>ds.
        and_then (group_by_window_op tf key_func (reduce_func_op tf) window_size_func ds)
          (\<lambda>ds.
        and_then (apply_transforms tf (traj_transforms cfg) False ds) (unbatch_op tf))))"
    by (rule frames_regroup)
qed

text \<open>
  The theorem on \<open>call_log\<close>, with the trajectory transform \<^verbatim>\<open>"cache"\<close> and one frame
  transform. With the flag, and a \<^verbatim>\<open>group_by_window\<close> that raises whenever it is called,
  the dataset is built: the cache comes before the flattening, and nothing regroups
  the frames. Without the flag the frames are regrouped, cached and flattened again.
\<close>

theorem traj_transforms_first_skips_regrouping_witness:
  "make_dataset (call_log\<lparr>group_by_window_op := (\<lambda>k r w ds. Inl (OpError ''group_by_window''))\<rparr>)
     cache_then_map =
     Inr [''TFRecordDataset'', ''d/a.tfrecord'', ''d/b.tfrecord'', ''with_options'',
          ''map _decode_example'', ''enumerate'', ''map _add_traj_metadata'',
          ''cache'', ''unbatch'', ''map transform'', ''repeat'', ''batch'', ''prefetch''] \<and>
   frames call_log cache_then_map [''tagged''] =
     Inr [''tagged'', ''cache'', ''unbatch'', ''map transform''] \<and>
   frames call_log (cache_then_map\<lparr>traj_transforms_first := False\<rparr>) [''tagged''] =
     Inr [''tagged'', ''unbatch'', ''map transform'', ''group_by_window'', ''cache'',
          ''unbatch'']"
proof -
  have first: "traj_transforms_first cache_then_map"
    by (simp add: cache_then_map_def)
  have regroup: "\<not> traj_transforms_first (cache_then_map\<lparr>traj_transforms_first := False\<rparr>)"
    by simp
  note with_flag =
    traj_transforms_first_skips_regrouping
      [where cfg = cache_then_map and tf = call_log and ds = "[''tagged'']"
         and g = "\<lambda>k r w ds. Inl (OpError ''group_by_window'')",
       THEN conjunct1, THEN mp, OF first]
  note without_flag =
    traj_transforms_first_skips_regrouping
      [where cfg = "cache_then_map\<lparr>traj_transforms_first := False\<rparr>" and tf = call_log
         and ds = "[''tagged'']", THEN conjunct2, THEN mp, OF regroup]
  have a: "make_dataset call_log cache_then_map =
     Inr [''TFRecordDataset'', ''d/a.tfrecord'', ''d/b.tfrecord'', ''with_options'',
          ''map _decode_example'', ''enumerate'', ''map _add_traj_metadata'',
          ''cache'', ''unbatch'', ''map transform'', ''repeat'', ''batch'', ''prefetch'']"
    by code_simp
  have b: "and_then (apply_transforms call_log (traj_transforms cache_then_map) False [''tagged''])
            (\<lambda>ds. and_then (unbatch_op call_log ds)
               (apply_transforms call_log (frame_transforms cache_then_map) False)) =
     Inr [''tagged'', ''cache'', ''unbatch'', ''map transform'']"
    by code_simp
  have c: "and_then (unbatch_op call_log [''tagged'']) (\<lambda>ds.
        and_then (apply_transforms call_log
                    (frame_transforms (cache_then_map\<lparr>traj_transforms_first := False\<rparr>)) True ds)
          (\<lambda>ds.
        and_then (group_by_window_op call_log key_func (reduce_func_op call_log)
                    window_size_func ds) (\<lambda>ds.
        and_then (apply_transforms call_log
                    (traj_transforms (cache_then_map\<lparr>traj_transforms_first := False\<rparr>)) False ds)
          (unbatch_op call_log)))) =
     Inr [''tagged'', ''unbatch'', ''map transform'', ''group_by_window'', ''cache'',
          ''unbatch'']"
    by code_simp
  show ?thesis
    using with_flag without_flag a b c by simp
qed

text \<open>
  Claim C10. With \<^verbatim>\<open>shuffle_buffer_size\<close> 1 or less neither the shard paths nor the
  frames are shuffled: whatever \<^verbatim>\<open>tf.random.shuffle\<close> and \<^verbatim>\<open>Dataset.shuffle\<close> would do,
  the result of \<^verbatim>\<open>make_dataset\<close> is the same, the type spec is read from the first file
  of the listing, and the frames go from l.94 to \<^verbatim>\<open>repeat\<close>. With
  \<^verbatim>\<open>shuffle_buffer_size\<close> greater than 1 the listing is shuffled with the seed before
  \<^verbatim>\<open>paths[0]\<close> is taken, so the type spec is read from the first file of the shuffled
  listing, the shards are read in the shuffled order, and the frames go through
  \<^verbatim>\<open>Dataset.shuffle\<close> with the buffer size and the same seed.
\<close>

theorem shuffle_buffer_gates_path_shuffle:
  "(shuffle_buffer_size cfg \<le> 1 \<longrightarrow>
      make_dataset (tf\<lparr>random_shuffle := r, shuffle_op := s\<rparr>) cfg = make_dataset tf cfg \<and>
      make_dataset tf cfg =
        and_then (glob tf (path cfg)) (\<lambda>paths.
        and_then (getitem0 (PyList paths)) (\<lambda>p.
        and_then (get_type_spec tf p) (\<lambda>type_spec.
        and_then (tagged_dataset tf (PyList paths) type_spec) (\<lambda>ds.
        and_then (frames tf cfg ds) (\<lambda>ds.
        and_then (repeat_op tf ds) (\<lambda>ds.
        and_then (batch_op tf (batch_size cfg) ds) (prefetch_op tf)))))))) \<and>
   (1 < shuffle_buffer_size cfg \<longrightarrow>
      make_dataset tf cfg =
        and_then (glob tf (path cfg)) (\<lambda>paths.
        and_then (getitem0 (PathTensor (random_shuffle tf (seed cfg) paths))) (\<lambda>p.
        and_then (get_type_spec tf p) (\<lambda>type_spec.
        and_then (tagged_dataset tf (PathTensor (random_shuffle tf (seed cfg) paths)) type_spec)
          (\<lambda>ds.
        and_then (frames tf cfg ds) (\<lambda>ds.
        and_then (shuffle_op tf (shuffle_buffer_size cfg) (seed cfg) ds) (\<lambda>ds.
        and_then (repeat_op tf ds) (\<lambda>ds.
        and_then (batch_op tf (batch_size cfg) ds) (prefetch_op tf)))))))))"
proof (intro conjI impI)
  assume off: "shuffle_buffer_size cfg \<le> 1"
  show "make_dataset (tf\<lparr>random_shuffle := r, shuffle_op := s\<rparr>) cfg = make_dataset tf cfg"
    using off by (intro make_dataset_frame) simp_all
  show "make_dataset tf cfg =
        and_then (glob tf (path cfg)) (\<lambda>paths.
        and_then (getitem0 (PyList paths)) (\<lambda>p.
        and_then (get_type_spec tf p) (\<lambda>type_spec.
        and_then (tagged_dataset tf (PyList paths) type_spec) (\<lambda>ds.
        and_then (frames tf cfg ds) (\<lambda>ds.
        and_then (repeat_op tf ds) (\<lambda>ds.
        and_then (batch_op tf (batch_size cfg) ds) (prefetch_op tf)))))))"
    using off by (simp add: make_dataset_def Let_def output_stage_off)
next
  assume on: "1 < shuffle_buffer_size cfg"
  show "make_dataset tf cfg =
        and_then (glob tf (path cfg)) (\<lambda>paths.
        and_then (getitem0 (PathTensor (random_shuffle tf (seed cfg) paths))) (\<lambda>p.
        and_then (get_type_spec tf p) (\<lambda>type_spec.
        and_then (tagged_dataset tf (PathTensor (random_shuffle tf (seed cfg) paths)) type_spec)
          (\<lambda>ds.
        and_then (frames tf cfg ds) (\<lambda>ds.
        and_then (shuffle_op tf (shuffle_buffer_size cfg) (seed cfg) ds) (\<lambda>ds.
        and_then (repeat_op tf ds) (\<lambda>ds.
        and_then (batch_op tf (batch_size cfg) ds) (prefetch_op tf))))))))"
    using on by (simp add: make_dataset_def Let_def output_stage_on)
qed

text \<open>
  The theorem on \<open>call_log\<close>. With buffer size 1, and a path shuffle that reverses the
  listing and a \<^verbatim>\<open>Dataset.shuffle\<close> that raises whenever they are called, the dataset is
  built on the listing as it is, without a shuffle. With buffer size 100 and seed 1 the
  shards are read in the reversed order and the frames are shuffled. When the shard
  \<^verbatim>\<open>b\<close> has no record, \<^verbatim>\<open>make_dataset\<close> raises the StopIteration of l.131 under seed 1,
  where the type spec is read from \<^verbatim>\<open>b\<close>, and returns a dataset under seed 2, where it is
  read from \<^verbatim>\<open>a\<close>.
\<close>

theorem shuffle_buffer_gates_path_shuffle_witness:
  "make_dataset
     (call_log\<lparr>random_shuffle := (\<lambda>s ps. rev ps),
               shuffle_op := (\<lambda>b s ds. Inl (OpError ''shuffle''))\<rparr>)
     cache_then_map =
     Inr [''TFRecordDataset'', ''d/a.tfrecord'', ''d/b.tfrecord'', ''with_options'',
          ''map _decode_example'', ''enumerate'', ''map _add_traj_metadata'',
          ''cache'', ''unbatch'', ''map transform'', ''repeat'', ''batch'', ''prefetch''] \<and>
   make_dataset call_log (cache_then_map\<lparr>shuffle_buffer_size := 100\<rparr>) =
     Inr [''TFRecordDataset'', ''d/b.tfrecord'', ''d/a.tfrecord'', ''with_options'',
          ''map _decode_example'', ''enumerate'', ''map _add_traj_metadata'',
          ''cache'', ''unbatch'', ''map transform'', ''shuffle'', ''repeat'', ''batch'',
          ''prefetch''] \<and>
   make_dataset
     (call_log\<lparr>next_iter := (\<lambda>ds. if ds = [''TFRecordDataset'', ''d/a.tfrecord'']
                                  then Inr ''d/a.tfrecord'' else Inl StopIteration)\<rparr>)
     (cache_then_map\<lparr>shuffle_buffer_size := 100\<rparr>) = Inl StopIteration \<and>
   make_dataset
     (call_log\<lparr>next_iter := (\<lambda>ds. if ds = [''TFRecordDataset'', ''d/a.tfrecord'']
                                  then Inr ''d/a.tfrecord'' else Inl StopIteration)\<rparr>)
     (cache_then_map\<lparr>shuffle_buffer_size := 100, seed := 2\<rparr>) =
     Inr [''TFRecordDataset'', ''d/a.tfrecord'', ''d/b.tfrecord'', ''with_options'',
          ''map _decode_example'', ''enumerate'', ''map _add_traj_metadata'',
          ''cache'', ''unbatch'', ''map transform'', ''shuffle'', ''repeat'', ''batch'',
          ''prefetch'']"
proof -
  have off: "shuffle_buffer_size cache_then_map \<le> 1"
    by (simp add: cache_then_map_def)
  have on: "1 < shuffle_buffer_size (cache_then_map\<lparr>shuffle_buffer_size := 100\<rparr>)"
    by simp
  have on2: "1 < shuffle_buffer_size (cache_then_map\<lparr>shuffle_buffer_size := 100, seed := 2\<rparr>)"
    by simp
  note unshuffled =
    shuffle_buffer_gates_path_shuffle
      [where cfg = cache_then_map and tf = call_log and r = "\<lambda>s ps. rev ps"
         and s = "\<lambda>b s ds. Inl (OpError ''shuffle'')",
       THEN conjunct1, THEN mp, OF off, THEN conjunct1]
  note shuffled =
    shuffle_buffer_gates_path_shuffle
      [where cfg = "cache_then_map\<lparr>shuffle_buffer_size := 100\<rparr>" and tf = call_log,
       THEN conjunct2, THEN mp, OF on]
  note empty_shard =
    shuffle_buffer_gates_path_shuffle
      [where cfg = "cache_then_map\<lparr>shuffle_buffer_size := 100\<rparr>"
         and tf = "call_log\<lparr>next_iter := (\<lambda>ds. if ds = [''TFRecordDataset'', ''d/a.tfrecord'']
                                  then Inr ''d/a.tfrecord'' else Inl StopIteration)\<rparr>",
       THEN conjunct2, THEN mp, OF on]
  note other_seed =
    shuffle_buffer_gates_path_shuffle
      [where cfg = "cache_then_map\<lparr>shuffle_buffer_size := 100, seed := 2\<rparr>"
         and tf = "call_log\<lparr>next_iter := (\<lambda>ds. if ds = [''TFRecordDataset'', ''d/a.tfrecord'']
                                  then Inr ''d/a.tfrecord'' else Inl StopIteration)\<rparr>",
       THEN conjunct2, THEN mp, OF on2]
  have a: "make_dataset call_log cache_then_map =
     Inr [''TFRecordDataset'', ''d/a.tfrecord'', ''d/b.tfrecord'', ''with_options'',
          ''map _decode_example'', ''enumerate'', ''map _add_traj_metadata'',
          ''cache'', ''unbatch'', ''map transform'', ''repeat'', ''batch'', ''prefetch'']"
    by code_simp
  have b: "make_dataset call_log (cache_then_map\<lparr>shuffle_buffer_size := 100\<rparr>) =
     Inr [''TFRecordDataset'', ''d/b.tfrecord'', ''d/a.tfrecord'', ''with_options'',
          ''map _decode_example'', ''enumerate'', ''map _add_traj_metadata'',
          ''cache'', ''unbatch'', ''map transform'', ''shuffle'', ''repeat'', ''batch'',
          ''prefetch'']"
    by (subst shuffled) code_simp
  have c: "make_dataset
     (call_log\<lparr>next_iter := (\<lambda>ds. if ds = [''TFRecordDataset'', ''d/a.tfrecord'']
                                  then Inr ''d/a.tfrecord'' else Inl StopIteration)\<rparr>)
     (cache_then_map\<lparr>shuffle_buffer_size := 100\<rparr>) = Inl StopIteration"
    by (subst empty_shard) code_simp
  have d: "make_dataset
     (call_log\<lparr>next_iter := (\<lambda>ds. if ds = [''TFRecordDataset'', ''d/a.tfrecord'']
                                  then Inr ''d/a.tfrecord'' else Inl StopIteration)\<rparr>)
     (cache_then_map\<lparr>shuffle_buffer_size := 100, seed := 2\<rparr>) =
     Inr [''TFRecordDataset'', ''d/a.tfrecord'', ''d/b.tfrecord'', ''with_options'',
          ''map _decode_example'', ''enumerate'', ''map _add_traj_metadata'',
          ''cache'', ''unbatch'', ''map transform'', ''shuffle'', ''repeat'', ''batch'',
          ''prefetch'']"
    by (subst other_seed) code_simp
  show ?thesis
    using unshuffled a b c d by simp
qed

end
